theory Spec2Isabelle
  imports Main "HOL-Library.Word"
begin

unbundle bit_operations_syntax

section \<open>Configuration constants\<close>

text \<open>
  The sketch is written for an 8-bit AVR: \<open>byte\<close> is 8 bits, \<open>word\<close> and \<open>int\<close> are 16 bits,
  \<open>unsigned long\<close> is 32 bits. The preprocessor constants are plain numbers; they are kept
  as naturals here and converted where the sketch assigns them to a typed variable. A
  comparison of a \<open>word\<close> or \<open>byte\<close> with an \<open>unsigned long\<close> constant widens the
  variable, so it is a comparison of the unsigned values (\<open>unat\<close>).
\<close>

definition MainsFrequency :: nat where "MainsFrequency = 50"
definition MaximumCurrent :: nat where "MaximumCurrent = 10000"
definition CurrentDigitCount :: nat where "CurrentDigitCount = 5"
definition LargestDigitIncrement :: nat where "LargestDigitIncrement = 10000"
definition CurrentPresets :: nat where "CurrentPresets = 10"
definition CurrentSensingResistor :: nat where "CurrentSensingResistor = 100"
definition MaxZeroCrossingTimeIncrement :: nat where "MaxZeroCrossingTimeIncrement = 10"
definition MaxZeroCrossingTime :: nat where
  "MaxZeroCrossingTime = ((1000000 * 2) div MainsFrequency) div MaxZeroCrossingTimeIncrement"

definition BytesPerPreset :: nat where "BytesPerPreset = 2"
definition CurrentPresetBase :: nat where "CurrentPresetBase = 0"
definition PresetRecallBase :: nat where
  "PresetRecallBase = CurrentPresetBase + CurrentPresets * BytesPerPreset"
definition BackEMFcountermeasuresRequiredBase :: nat where
  "BackEMFcountermeasuresRequiredBase = PresetRecallBase + 1"

section \<open>Program state\<close>

text \<open>
  What the sketch does to the outside world is recorded in a trace, in program order.
  Display output and delays are not recorded.
\<close>

datatype channel = ViaSerial | ViaLCD

datatype event =
    EvDisableInterrupts
  | EvEnableInterrupts
  | EvEepromRead nat
  | EvEepromWrite nat "8 word"
  | EvAnalogWrite "16 word"
  | EvSetEnableOutput bool
  | EvSerial string
  | EvSerialNumber nat
  | EvSweepSensed channel "16 word"
  | EvSweepOutOfLimit channel

datatype edge = CHANGE | RISING | FALLING

record state =
  ZeroCrossingTime :: "16 word"
  CurrentLimit :: "16 word"
  RecalledPreset :: "8 word"
  BackEMFcountermeasuresRequired :: bool
  DummyZeroCrossingIRQenable :: bool
  ZeroCrossingDetected :: bool
  OvercurrentSensed :: bool
  EnableOutput :: bool
  eeprom :: "nat \<Rightarrow> 8 word"
  ZeroCrossingIRQmode :: "edge option"
  OvercurrentIRQattached :: bool
  OutputEnablePin :: bool
  trace :: "event list"

text \<open>
  The globals as their initialisers leave them at reset, over a given EEPROM content.
  No interrupt is attached and the output pin is low. An erased EEPROM reads \<open>0xFF\<close>.
\<close>

definition power_on :: "(nat \<Rightarrow> 8 word) \<Rightarrow> state" where
  "power_on ee =
     \<lparr>ZeroCrossingTime = 0, CurrentLimit = 0, RecalledPreset = 0,
      BackEMFcountermeasuresRequired = False, DummyZeroCrossingIRQenable = False,
      ZeroCrossingDetected = False, OvercurrentSensed = False, EnableOutput = False,
      eeprom = ee, ZeroCrossingIRQmode = None, OvercurrentIRQattached = False,
      OutputEnablePin = False, trace = []\<rparr>"

definition erased :: "nat \<Rightarrow> 8 word" where
  "erased = (\<lambda>a. 255)"

definition emit :: "event \<Rightarrow> state \<Rightarrow> state" where
  "emit e s = s\<lparr>trace := trace s @ [e]\<rparr>"

section \<open>Interrupt attachment\<close>

definition EnableInterrupts :: "state \<Rightarrow> state" where
  "EnableInterrupts s =
     emit EvEnableInterrupts
       (s\<lparr>OvercurrentIRQattached := True, ZeroCrossingIRQmode := Some CHANGE\<rparr>)"

definition DisableInterrupts :: "state \<Rightarrow> state" where
  "DisableInterrupts s =
     emit EvDisableInterrupts
       (s\<lparr>ZeroCrossingIRQmode := None, OutputEnablePin := False,
          OvercurrentIRQattached := False\<rparr>)"

section \<open>EEPROM access\<close>

text \<open>
  \<open>EEPROM.read\<close> and \<open>EEPROM.write\<close> move one byte. \<open>BeyondByte.readWord\<close> and
  \<open>BeyondByte.writeWord\<close> are called with \<open>BytesPerPreset = 2\<close> and \<open>MSBFIRST\<close>: two
  consecutive bytes, the most significant at the lower address.
\<close>

definition EEPROM_read :: "nat \<Rightarrow> state \<Rightarrow> 8 word \<times> state" where
  "EEPROM_read a s = (eeprom s a, emit (EvEepromRead a) s)"

definition EEPROM_write :: "nat \<Rightarrow> 8 word \<Rightarrow> state \<Rightarrow> state" where
  "EEPROM_write a v s = emit (EvEepromWrite a v) (s\<lparr>eeprom := (eeprom s)(a := v)\<rparr>)"

definition msb :: "16 word \<Rightarrow> 8 word" where
  "msb v = ucast (drop_bit 8 v)"

definition lsb :: "16 word \<Rightarrow> 8 word" where
  "lsb v = ucast v"

definition word_of_bytes :: "8 word \<Rightarrow> 8 word \<Rightarrow> 16 word" where
  "word_of_bytes hi lo = push_bit 8 (ucast hi) OR ucast lo"

definition readWord :: "nat \<Rightarrow> state \<Rightarrow> 16 word \<times> state" where
  "readWord a s =
     (let (hi, s1) = EEPROM_read a s;
          (lo, s2) = EEPROM_read (a + 1) s1
      in (word_of_bytes hi lo, s2))"

definition writeWord :: "nat \<Rightarrow> 16 word \<Rightarrow> state \<Rightarrow> state" where
  "writeWord a v s = EEPROM_write (a + 1) (lsb v) (EEPROM_write a (msb v) s)"

definition preset_address :: "8 word \<Rightarrow> nat" where
  "preset_address preset = unat preset * BytesPerPreset + CurrentPresetBase"

definition RecallPreset :: "8 word \<Rightarrow> state \<Rightarrow> 16 word \<times> state" where
  "RecallPreset preset s =
     (let s1 = DisableInterrupts s;
          (data, s2) = readWord (preset_address preset) s1;
          s3 = EnableInterrupts s2
      in (data, s3))"

definition StorePreset :: "16 word \<Rightarrow> 8 word \<Rightarrow> state \<Rightarrow> state" where
  "StorePreset v preset s =
     EnableInterrupts (writeWord (preset_address preset) v (DisableInterrupts s))"

section \<open>Current limit controller\<close>

text \<open>
  \<open>duty_code\<close> is the local \<open>temp\<close> of \<open>WriteCurrentLimit\<close>: a 16-bit \<open>word\<close>
  initialised to \<open>MaximumCurrent + 1\<close>, from which \<open>CurrentLimit\<close> is subtracted.
\<close>

definition duty_code :: "16 word \<Rightarrow> 16 word" where
  "duty_code limit = word_of_nat (MaximumCurrent + 1) - limit"

definition WriteCurrentLimit :: "bool \<Rightarrow> state \<Rightarrow> state" where
  "WriteCurrentLimit SweepUsed s =
     (let s1 = emit (EvAnalogWrite (duty_code (CurrentLimit s))) s
      in if \<not> SweepUsed then s1
         else if CurrentLimit s1 \<noteq> 0 then s1
         else s1\<lparr>OvercurrentSensed := False\<rparr>)"

section \<open>Interrupt handlers\<close>

text \<open>
  The foreground asks for the output through the variable \<open>EnableOutput\<close>; the
  zero-crossing handler copies it to the pin, the overcurrent handler forces the pin low.
\<close>

definition set_EnableOutput :: "bool \<Rightarrow> state \<Rightarrow> state" where
  "set_EnableOutput v s = emit (EvSetEnableOutput v) (s\<lparr>EnableOutput := v\<rparr>)"

definition ZeroCrossingIRQ :: "state \<Rightarrow> state" where
  "ZeroCrossingIRQ s = s\<lparr>ZeroCrossingDetected := True, OutputEnablePin := EnableOutput s\<rparr>"

definition OvercurrentIRQ :: "state \<Rightarrow> state" where
  "OvercurrentIRQ s = s\<lparr>OutputEnablePin := False, OvercurrentSensed := True\<rparr>"

text \<open>
  A handler runs when its trigger fires while it is attached. What fires while the
  foreground is between two of its statements is given as a list of requests, in the
  order in which they are served.
\<close>

datatype request = ZeroCrossing | Overcurrent

definition serve :: "request \<Rightarrow> state \<Rightarrow> state" where
  "serve r s =
     (case r of
        ZeroCrossing \<Rightarrow> if ZeroCrossingIRQmode s \<noteq> None then ZeroCrossingIRQ s else s
      | Overcurrent \<Rightarrow> if OvercurrentIRQattached s then OvercurrentIRQ s else s)"

definition interrupted :: "request list \<Rightarrow> state \<Rightarrow> state" where
  "interrupted rs s = fold serve rs s"

section \<open>Startup: countermeasure flag and integrity pass\<close>

text \<open>
  \<open>BackEMFcountermeasuresRequired\<close> is a C++ \<open>bool\<close>: assigning the byte read from the
  EEPROM converts it, every nonzero byte to \<open>true\<close>. Writing a \<open>bool\<close> to the EEPROM
  stores 1 or 0.
\<close>

definition bool_of_byte :: "8 word \<Rightarrow> bool" where
  "bool_of_byte b = (b \<noteq> 0)"

definition byte_of_bool :: "bool \<Rightarrow> 8 word" where
  "byte_of_bool b = (if b then 1 else 0)"

definition setup_read_BackEMF :: "state \<Rightarrow> state" where
  "setup_read_BackEMF s =
     (let (b, s1) = EEPROM_read BackEMFcountermeasuresRequiredBase s;
          s2 = s1\<lparr>BackEMFcountermeasuresRequired := bool_of_byte b\<rparr>
      in if BackEMFcountermeasuresRequired s2 \<noteq> True \<and> BackEMFcountermeasuresRequired s2 \<noteq> False
         then EEPROM_write BackEMFcountermeasuresRequiredBase (byte_of_bool False)
                (s2\<lparr>BackEMFcountermeasuresRequired := False\<rparr>)
         else s2)"

text \<open>
  The body of the loop over the presets, and the loop, \<open>i\<close> from 0 below \<open>CurrentPresets\<close>.
  \<open>RecallPreset\<close> and \<open>StorePreset\<close> return with both triggers attached, so from the first
  recall on the handlers can run between the critical sections: \<open>fired (2 * i)\<close> is what
  fires after the recall of preset \<open>i\<close> and \<open>fired (2 * i + 1)\<close> what fires after its
  store. The time after the last of them lasts until the first wait of the
  qualification; the check of the default index falls into it, and it touches nothing
  that a handler touches. What fired before the pass is part of the state in which the
  pass starts.
\<close>

definition check_preset :: "(nat \<Rightarrow> request list) \<Rightarrow> nat \<Rightarrow> state \<Rightarrow> state" where
  "check_preset fired i s =
     (let (PresetCurrent, s1) = RecallPreset (word_of_nat i) s;
          s2 = interrupted (fired (2 * i)) s1
      in if MaximumCurrent < unat PresetCurrent
         then interrupted (fired (2 * i + 1)) (StorePreset 0 (word_of_nat i) s2)
         else s2)"

definition check_presets :: "(nat \<Rightarrow> request list) \<Rightarrow> state \<Rightarrow> state" where
  "check_presets fired s = fold (check_preset fired) [0..<CurrentPresets] s"

definition check_default :: "state \<Rightarrow> state" where
  "check_default s =
     (let (b, s1) = EEPROM_read PresetRecallBase s
      in if CurrentPresets \<le> unat b then EEPROM_write PresetRecallBase 0 s1 else s1)"

definition integrity_pass :: "(nat \<Rightarrow> request list) \<Rightarrow> state \<Rightarrow> state" where
  "integrity_pass fired s = check_default (check_presets fired s)"

section \<open>Startup: waveform qualification\<close>

datatype error_code = ErrorNone | ErrorSinewaveOnly | ErrorNoAltCycles | ErrorNoZeroCross

text \<open>
  The zero-crossing handler runs asynchronously. For one call of
  \<open>WaitForZeroCrossingOrTimeout\<close> the line is described by a function \<open>irq\<close>: \<open>irq i\<close>
  says that an edge of the attached kind arrives during the delay of iteration \<open>i\<close>.
  The handler runs only while it is attached. The loop counts \<open>i\<close> upwards;
  the third argument is the number of iterations left.
\<close>

primrec wait_loop :: "(nat \<Rightarrow> bool) \<Rightarrow> nat \<Rightarrow> nat \<Rightarrow> state \<Rightarrow> state" where
  "wait_loop irq i 0 s = s"
| "wait_loop irq i (Suc n) s =
     (if ZeroCrossingDetected s then s
      else wait_loop irq (Suc i) n
             (if irq i \<and> ZeroCrossingIRQmode s \<noteq> None then ZeroCrossingIRQ s else s))"

definition WaitForZeroCrossingOrTimeout :: "(nat \<Rightarrow> bool) \<Rightarrow> state \<Rightarrow> state" where
  "WaitForZeroCrossingOrTimeout irq s = wait_loop irq 0 MaxZeroCrossingTime s"

text \<open>
  The line during qualification: the edges during each of the five waits, in program
  order, and the two readings of \<open>micros()\<close>.
\<close>

record line =
  edges :: "nat \<Rightarrow> nat \<Rightarrow> bool"
  StartTime :: "32 word"
  StopTime :: "32 word"

definition attachZeroCrossing :: "edge \<Rightarrow> state \<Rightarrow> state" where
  "attachZeroCrossing m s = s\<lparr>ZeroCrossingIRQmode := Some m\<rparr>"

definition detachZeroCrossing :: "state \<Rightarrow> state" where
  "detachZeroCrossing s = s\<lparr>ZeroCrossingIRQmode := None\<rparr>"

definition clearZeroCrossing :: "state \<Rightarrow> state" where
  "clearZeroCrossing s = s\<lparr>ZeroCrossingDetected := False\<rparr>"

definition SinewaveThreshold :: nat where
  "SinewaveThreshold = ((1000000 div MainsFrequency div 2) * 75) div 100"

text \<open>The inner \<open>else\<close> branch: the falling-edge measurement. Returns \<open>BothEdgesDetected\<close>.\<close>

definition measure_falling :: "line \<Rightarrow> state \<Rightarrow> bool \<times> state" where
  "measure_falling ln s =
     (let s1 = attachZeroCrossing FALLING (clearZeroCrossing (detachZeroCrossing s));
          s2 = WaitForZeroCrossingOrTimeout (edges ln 3) s1;
          s3 = clearZeroCrossing s2;
          s4 = WaitForZeroCrossingOrTimeout (edges ln 4) s3;
          BothEdgesDetected = ZeroCrossingDetected s4;
          s5 = detachZeroCrossing s4
      in (BothEdgesDetected, s5\<lparr>ZeroCrossingTime := ucast (StopTime ln - StartTime ln)\<rparr>))"

definition qualify :: "line \<Rightarrow> state \<Rightarrow> error_code \<times> state" where
  "qualify ln s =
     (let s1 = WaitForZeroCrossingOrTimeout (edges ln 0) s
      in if ZeroCrossingDetected s1 then
           let s2 = attachZeroCrossing RISING (clearZeroCrossing (detachZeroCrossing s1));
               s3 = WaitForZeroCrossingOrTimeout (edges ln 1) s2;
               s4 = clearZeroCrossing s3;
               s5 = WaitForZeroCrossingOrTimeout (edges ln 2) s4;
               (BothEdgesDetected, s6) =
                  (if \<not> ZeroCrossingDetected s5 then (False, s5) else measure_falling ln s5)
           in if BothEdgesDetected \<and> unat (ZeroCrossingTime s6) < SinewaveThreshold
              then (ErrorSinewaveOnly, s6)
              else if \<not> BothEdgesDetected then (ErrorNoAltCycles, s6)
              else (ErrorNone, s6)
         else (ErrorNoZeroCross, s1))"

text \<open>
  The rest of \<open>setup\<close>: on a fault the sketch shows the message and halts in an empty
  loop, which is the result \<open>Inl\<close>; otherwise it loads the default preset and returns.
\<close>

definition setup_finish :: "error_code \<Rightarrow> state \<Rightarrow> error_code + state" where
  "setup_finish ErrorCode s =
     (let s1 = DisableInterrupts s
      in if ErrorCode \<noteq> ErrorNone then Inl ErrorCode
         else
           let (preset, s2) = EEPROM_read PresetRecallBase s1;
               s3 = s2\<lparr>RecalledPreset := preset\<rparr>;
               (limit, s4) = RecallPreset (RecalledPreset s3) s3;
               s5 = s4\<lparr>CurrentLimit := limit\<rparr>;
               s6 = WriteCurrentLimit False (EnableInterrupts s5)
           in Inr (if \<not> DummyZeroCrossingIRQenable s6 then set_EnableOutput True s6 else s6))"

definition setup_qualify :: "(nat \<Rightarrow> request list) \<Rightarrow> line \<Rightarrow> state \<Rightarrow> error_code + state" where
  "setup_qualify fired ln s =
     (let (ErrorCode, s1) = qualify ln (integrity_pass fired s) in setup_finish ErrorCode s1)"

section \<open>Vocabulary of the statements\<close>

text \<open>The value a preset slot holds is what \<open>RecallPreset\<close> returns for it.\<close>

definition preset_value :: "state \<Rightarrow> nat \<Rightarrow> 16 word" where
  "preset_value s i = fst (RecallPreset (word_of_nat i) s)"

definition exceeds :: "state \<Rightarrow> nat \<Rightarrow> bool" where
  "exceeds s i = (MaximumCurrent < unat (preset_value s i))"

definition slot_cells :: "nat \<Rightarrow> nat set" where
  "slot_cells i = {2 * i, 2 * i + 1}"

text \<open>
  An edge arrives before one bounded wait expires; the first wait of \<open>setup\<close> also ends
  at once when the flag is already set. The measurement is what the sketch keeps of
  \<open>StopTime - StartTime\<close>: \<open>ZeroCrossingTime\<close> is a 16-bit \<open>word\<close>.
\<close>

definition edge_within :: "(nat \<Rightarrow> bool) \<Rightarrow> bool" where
  "edge_within irq = (\<exists>i<MaxZeroCrossingTime. irq i)"

definition first_edge :: "line \<Rightarrow> state \<Rightarrow> bool" where
  "first_edge ln s =
     (ZeroCrossingDetected s \<or> (ZeroCrossingIRQmode s \<noteq> None \<and> edge_within (edges ln 0)))"


definition measured :: "line \<Rightarrow> 16 word" where
  "measured ln = ucast (StopTime ln - StartTime ln)"


section \<open>Sample inputs\<close>

text \<open>
  An EEPROM that is erased except for preset 3 (index from 0), which holds 2500 mA, the
  default index 3 and a cleared countermeasure flag.
\<close>

definition sample_eeprom :: "nat \<Rightarrow> 8 word" where
  "sample_eeprom = erased(6 := 9, 7 := 196, 20 := 3, 21 := 0)"

text \<open>
  A line with an edge in iteration 5 of every wait but the wait \<open>lost\<close>, and a given time
  between the two readings of \<open>micros()\<close>, the first taken shortly before the counter
  wraps.
\<close>

text \<open>Nothing fires during the integrity pass, or a zero crossing in every gap.\<close>

definition quiet :: "nat \<Rightarrow> request list" where
  "quiet k = []"

definition crossings :: "nat \<Rightarrow> request list" where
  "crossings k = [ZeroCrossing]"

definition sample_line :: "nat \<Rightarrow> 32 word \<Rightarrow> line" where
  "sample_line lost elapsed =
     \<lparr>edges = (\<lambda>k i. k \<noteq> lost \<and> i = 5), StartTime = 4294967000,
      StopTime = 4294967000 + elapsed\<rparr>"

section \<open>Current sweep\<close>

text \<open>
  The sweep exists twice in \<open>setup\<close>, with the same loops: in diagnostic mode it reports
  on the display and is stopped by the pushbutton, in the serial session it reports on
  the serial port and is stopped by incoming data. One pass of the inner \<open>for\<close> loop is
  described by \<open>stop_step i\<close> (the stop signal as read at the head of step \<open>i\<close>) and
  \<open>trip i\<close> (the overcurrent handler runs during step \<open>i\<close>, after \<open>WriteCurrentLimit\<close> and
  before the flag is tested); \<open>stop_pass\<close> is the stop signal as read at the head of the
  outer \<open>while\<close> loop. The zero-crossing handler is left out of the sweep: it changes
  neither the limit nor the overcurrent flag.
\<close>

record sweep_env =
  stop_pass :: bool
  stop_step :: "nat \<Rightarrow> bool"
  trip :: "nat \<Rightarrow> bool"

definition sweep_check :: "channel \<Rightarrow> state \<Rightarrow> bool \<times> state" where
  "sweep_check ch s =
     (if OvercurrentSensed s then (True, emit (EvSweepSensed ch (CurrentLimit s)) s)
      else if \<not> OvercurrentSensed s \<and> unat (CurrentLimit s) = MaximumCurrent
      then (False, emit (EvSweepOutOfLimit ch) s)
      else (False, s))"

function sweep_steps :: "channel \<Rightarrow> sweep_env \<Rightarrow> nat \<Rightarrow> state \<Rightarrow> state" where
  "sweep_steps ch env i s =
     (if \<not> i \<le> MaximumCurrent then s
      else if stop_step env i then s
      else
        let s1 = WriteCurrentLimit True (s\<lparr>CurrentLimit := word_of_nat i\<rparr>);
            s2 = (if trip env i \<and> OvercurrentIRQattached s1 then OvercurrentIRQ s1 else s1);
            (sensed, s3) = sweep_check ch s2
        in if sensed then s3 else sweep_steps ch env (Suc i) s3)"
  by pat_completeness auto
termination
  by (relation "measure (\<lambda>(ch, env, i, s). Suc MaximumCurrent - i)") auto

text \<open>
  The outer loop runs passes until the stop signal is seen at its head. The list holds
  the passes that are described; when it is used up with the sweep still running, the
  result is \<open>None\<close>.
\<close>

fun sweep_passes :: "channel \<Rightarrow> sweep_env list \<Rightarrow> state \<Rightarrow> state option" where
  "sweep_passes ch [] s = None"
| "sweep_passes ch (env # envs) s =
     (if stop_pass env then Some s else sweep_passes ch envs (sweep_steps ch env 0 s))"

definition current_sweep :: "channel \<Rightarrow> sweep_env list \<Rightarrow> state \<Rightarrow> state option" where
  "current_sweep ch envs s = map_option DisableInterrupts (sweep_passes ch envs (EnableInterrupts s))"

section \<open>Serial programming session\<close>

text \<open>
  The command line is taken apart by the \<open>FieldOps\<close> library, which is not part of the
  sketch. A command is given here as the branch of the \<open>if\<close> chain that the comparisons
  of field 0 select, with the other fields as the sketch receives them: a number is the
  result of \<open>extractInt\<close> as stored in a 16-bit \<open>word\<close>. \<open>COMP_TEST\<close> is not modelled.
\<close>

datatype store_field = DEFAULT | Milliamps "16 word"
datatype read_field = AllMemories | Memory "16 word"
datatype back_emf_field = ON | OFF | CHECK | OtherField

datatype command =
    STORE "16 word" store_field
  | READ read_field
  | CALIBRATE
  | BACK_EMF back_emf_field
  | CURRENT_SWEEP
  | EXIT bool
  | Unrecognised

text \<open>
  What a command meets besides the state: the content of the local \<open>ValueToStore\<close>
  where the sketch reads it without having assigned it, and the passes of a sweep.
\<close>

record world =
  unassigned :: "16 word"
  passes :: "sweep_env list"

definition memory_in_range :: "16 word \<Rightarrow> bool" where
  "memory_in_range m =
     (unat m \<le> CurrentPresets \<and>
      ((100 \<le> CurrentPresets \<and> 0 \<le> unat m \<and> unat m < 100) \<or>
       (CurrentPresets < 100 \<and> 1 \<le> unat m \<and> unat m < 100)))"

definition memory_index :: "16 word \<Rightarrow> 8 word" where
  "memory_index m = ucast (if CurrentPresets < 100 then m - 1 else m)"

definition store_command :: "world \<Rightarrow> 16 word \<Rightarrow> store_field \<Rightarrow> state \<Rightarrow> bool \<times> state" where
  "store_command w MemoryToStore field s =
     (let StoreDefault = (field = DEFAULT);
          ValueToStore = (case field of DEFAULT \<Rightarrow> unassigned w | Milliamps v \<Rightarrow> v)
      in if unat MemoryToStore \<le> CurrentPresets \<and> unat ValueToStore \<le> MaximumCurrent \<and>
            ((100 \<le> CurrentPresets \<and> 0 \<le> unat MemoryToStore \<and> unat MemoryToStore < 100) \<or>
             (CurrentPresets < 100 \<and> 1 \<le> unat MemoryToStore \<and> unat MemoryToStore < 100))
         then if \<not> StoreDefault
              then (True, StorePreset ValueToStore (memory_index MemoryToStore) s)
              else (True, EEPROM_write PresetRecallBase (memory_index MemoryToStore) s)
         else (False, s))"

definition read_memory :: "nat \<Rightarrow> state \<Rightarrow> state" where
  "read_memory i s =
     (let PresetToRead = (if CurrentPresets < 100 then i + 1 else i);
          s1 = emit (EvSerialNumber PresetToRead) s;
          (v, s2) = RecallPreset (word_of_nat i) s1
      in emit (EvSerialNumber (unat v)) s2)"

definition read_command :: "read_field \<Rightarrow> state \<Rightarrow> bool \<times> state" where
  "read_command field s =
     (case field of
        AllMemories \<Rightarrow>
          let (d, s1) = EEPROM_read PresetRecallBase s;
              ProgrammedDefault = (if CurrentPresets < 100 then d + 1 else d);
              s2 = emit (EvSerialNumber (unat ProgrammedDefault)) s1
          in (True, fold read_memory [0..<CurrentPresets] s2)
      | Memory MemoryToRead \<Rightarrow>
          if memory_in_range MemoryToRead
          then let (v, s1) = RecallPreset (memory_index MemoryToRead) s
               in (True, emit (EvSerialNumber (unat v)) s1)
          else (False, s))"

definition calibrate :: "state \<Rightarrow> state" where
  "calibrate s =
     (let s1 = WriteCurrentLimit False (s\<lparr>CurrentLimit := word_of_nat MaximumCurrent\<rparr>);
          s2 = DisableInterrupts s1;
          V = MaximumCurrent * CurrentSensingResistor
      in emit (EvSerialNumber (V mod 1000000)) (emit (EvSerialNumber (V div 1000000)) s2))"

definition back_emf_command :: "back_emf_field \<Rightarrow> state \<Rightarrow> bool \<times> state" where
  "back_emf_command field s =
     (let (ValidField, EEPROMwriteRequired, s1) =
            (case field of
               ON \<Rightarrow> (True, True, s\<lparr>BackEMFcountermeasuresRequired := True\<rparr>)
             | OFF \<Rightarrow> (True, True, s\<lparr>BackEMFcountermeasuresRequired := False\<rparr>)
             | CHECK \<Rightarrow>
                 (True, False,
                  emit (EvSerial (if BackEMFcountermeasuresRequired s
                                  then ''Back EMF countermeasures enabled''
                                  else ''Back EMF countermeasures disabled'')) s)
             | OtherField \<Rightarrow> (False, False, s))
      in (ValidField,
          if EEPROMwriteRequired
          then EEPROM_write BackEMFcountermeasuresRequiredBase
                 (byte_of_bool (BackEMFcountermeasuresRequired s1)) s1
          else s1))"

definition reply :: "bool \<Rightarrow> state \<Rightarrow> state" where
  "reply ValidField s = emit (EvSerial (if ValidField then ''OK'' else ''ERROR'')) s"

text \<open>
  \<open>EXIT\<close> leaves the loop of the session before the reply is sent; with \<open>DIAGNOSTICS\<close> it
  starts the dummy cycles first.
\<close>

definition exit_command :: "bool \<Rightarrow> state \<Rightarrow> state" where
  "exit_command diagnostics s =
     (if diagnostics then s\<lparr>DummyZeroCrossingIRQenable := True\<rparr> else s)"

text \<open>One command, with its reply. The result is \<open>None\<close> when a sweep is never stopped.\<close>

definition serial_command :: "world \<Rightarrow> command \<Rightarrow> state \<Rightarrow> state option" where
  "serial_command w c s =
     (case c of
        STORE m field \<Rightarrow> (let (v, s1) = store_command w m field s in Some (reply v s1))
      | READ field \<Rightarrow> (let (v, s1) = read_command field s in Some (reply v s1))
      | CALIBRATE \<Rightarrow> Some (reply True (calibrate s))
      | BACK_EMF field \<Rightarrow> (let (v, s1) = back_emf_command field s in Some (reply v s1))
      | CURRENT_SWEEP \<Rightarrow> map_option (reply True) (current_sweep ViaSerial (passes w) s)
      | EXIT d \<Rightarrow> Some (exit_command d s)
      | Unrecognised \<Rightarrow> Some (reply False s))"

text \<open>
  The session reads commands until \<open>EXIT\<close>. When the commands given are used up without
  an \<open>EXIT\<close> the session is still waiting for input: \<open>None\<close>.
\<close>

fun serial_session :: "(command \<times> world) list \<Rightarrow> state \<Rightarrow> state option" where
  "serial_session [] s = None"
| "serial_session ((EXIT d, w) # cs) s = serial_command w (EXIT d) s"
| "serial_session ((c, w) # cs) s =
     (case serial_command w c s of None \<Rightarrow> None | Some s1 \<Rightarrow> serial_session cs s1)"

section \<open>Pushbutton\<close>

text \<open>
  The pushbutton is read by polling. A function \<open>low\<close> gives the readings of one call:
  \<open>low i\<close> says that the \<open>i\<close>-th \<open>digitalRead\<close> of the call returns \<open>LOW\<close> (pressed).
  In \<open>TimePushbuttonHeld\<close> reading 0 is the test that guards the loop and reading
  \<open>Suc i\<close> is the one of iteration \<open>i\<close>. Every press ends: the loops that wait for the
  release of the pushbutton, at the end of \<open>TimePushbuttonHeld\<close> and before
  \<open>PushbuttonTimeout\<close> in \<open>loop\<close>, are taken to end.
\<close>

function PushbuttonTimeout_loop :: "(nat \<Rightarrow> bool) \<Rightarrow> nat \<Rightarrow> nat \<Rightarrow> bool" where
  "PushbuttonTimeout_loop low v i =
     (if \<not> i \<le> v * 10 then True
      else if low i then False
      else PushbuttonTimeout_loop low v (Suc i))"
  by pat_completeness auto
termination
  by (relation "measure (\<lambda>(low, v, i). Suc (v * 10) - i)") auto

definition PushbuttonTimeout :: "(nat \<Rightarrow> bool) \<Rightarrow> nat \<Rightarrow> bool" where
  "PushbuttonTimeout low v = PushbuttonTimeout_loop low v 0"

function held_loop :: "(nat \<Rightarrow> bool) \<Rightarrow> nat \<Rightarrow> 8 word \<Rightarrow> 8 word" where
  "held_loop low i v =
     (if \<not> i \<le> 100 then v
      else if \<not> low (Suc i) then v
      else held_loop low (Suc i) (word_of_nat i div 10))"
  by pat_completeness auto
termination
  by (relation "measure (\<lambda>(low, i, v). 101 - i)") auto

definition TimePushbuttonHeld :: "(nat \<Rightarrow> bool) \<Rightarrow> 8 word" where
  "TimePushbuttonHeld low = (if low 0 then held_loop low 0 0 else 0)"

section \<open>Operator menu\<close>

text \<open>
  Inside the menu the sketch waits for a press in an empty loop and then measures it.
  The presses that come are a list of reading functions, one for each measurement; when
  the list is used up the sketch is still waiting: \<open>None\<close>.
\<close>

type_synonym presses = "(nat \<Rightarrow> bool) list"

text \<open>
  Select preset. The third and fourth arguments are \<open>OldPreset\<close> and \<open>OldPWMvalue\<close>.
  In diagnostic mode the wait for the press shows and clears the overcurrent flag.
\<close>

fun select_preset :: "presses \<Rightarrow> 8 word \<Rightarrow> 16 word \<Rightarrow> state \<Rightarrow> (presses \<times> state) option" where
  "select_preset [] OldPreset OldPWMvalue s = None"
| "select_preset (p # ps) OldPreset OldPWMvalue s =
     (let s1 = s\<lparr>RecalledPreset := RecalledPreset s + 1\<rparr>;
          s2 = (if CurrentPresets \<le> unat (RecalledPreset s1) then s1\<lparr>RecalledPreset := 0\<rparr> else s1);
          (limit, s3) = RecallPreset (RecalledPreset s2) s2;
          s4 = s3\<lparr>CurrentLimit := limit\<rparr>;
          s5 = (if DummyZeroCrossingIRQenable s4 then s4\<lparr>OvercurrentSensed := False\<rparr> else s4);
          WhatToDo = TimePushbuttonHeld p
      in if 2 < WhatToDo \<and> WhatToDo \<le> 5 then Some (ps, WriteCurrentLimit False s5)
         else if 5 < WhatToDo
         then Some (ps, s5\<lparr>RecalledPreset := OldPreset, CurrentLimit := OldPWMvalue\<rparr>)
         else select_preset ps OldPreset OldPWMvalue s5)"

text \<open>
  Program preset. The number is taken apart into \<open>DigitTemp\<close> by repeated subtraction,
  most significant place first, and put together again after a digit was incremented.
  Both inner loops are \<open>while (true)\<close> loops in the sketch.
\<close>

partial_function (option) count_place :: "16 word \<Rightarrow> 16 word \<Rightarrow> 8 word \<Rightarrow> (16 word \<times> 8 word) option" where
  "count_place temp factor d =
     (if factor \<le> temp then count_place (temp - factor) factor (d + 1) else Some (temp, d))"

fun to_places :: "nat \<Rightarrow> 16 word \<Rightarrow> 16 word \<Rightarrow> 8 word list option" where
  "to_places 0 temp factor = Some []"
| "to_places (Suc n) temp factor =
     (case count_place temp factor 0 of
        None \<Rightarrow> None
      | Some (temp1, d) \<Rightarrow> map_option ((#) d) (to_places n temp1 (factor div 10)))"

fun add_places :: "16 word \<Rightarrow> 16 word \<Rightarrow> 8 word list \<Rightarrow> 16 word" where
  "add_places limit factor [] = limit"
| "add_places limit factor (d # ds) = add_places (limit + ucast d * factor) (factor div 10) ds"

definition from_places :: "8 word list \<Rightarrow> 16 word" where
  "from_places ds = add_places 0 (word_of_nat LargestDigitIncrement) ds"

partial_function (option) settle_places :: "nat \<Rightarrow> 8 word list \<Rightarrow> (16 word \<times> 8 word list) option" where
  "settle_places SelectedDigit ds =
     (if MaximumCurrent < unat (from_places ds)
      then settle_places SelectedDigit (ds[SelectedDigit := 0])
      else Some (from_places ds, ds))"

definition bump :: "8 word \<Rightarrow> 8 word" where
  "bump d = (if 9 < d + 1 then 0 else d + 1)"

definition increment_digit :: "nat \<Rightarrow> 8 word list \<Rightarrow> (16 word \<times> 8 word list) option" where
  "increment_digit SelectedDigit ds =
     settle_places SelectedDigit (ds[SelectedDigit := bump (ds ! SelectedDigit)])"

definition next_digit :: "nat \<Rightarrow> nat" where
  "next_digit SelectedDigit =
     (if CurrentDigitCount \<le> SelectedDigit + 1 then 0 else SelectedDigit + 1)"

fun program_preset :: "presses \<Rightarrow> nat \<Rightarrow> state \<Rightarrow> (presses \<times> state) option" where
  "program_preset [] SelectedDigit s = None"
| "program_preset (p # ps) SelectedDigit s =
     (case to_places CurrentDigitCount (CurrentLimit s) (word_of_nat LargestDigitIncrement) of
        None \<Rightarrow> None
      | Some DigitTemp \<Rightarrow>
          let WhatToDo = TimePushbuttonHeld p
          in if WhatToDo \<le> 2
             then (case increment_digit SelectedDigit DigitTemp of
                     None \<Rightarrow> None
                   | Some (limit, ds) \<Rightarrow> program_preset ps SelectedDigit (s\<lparr>CurrentLimit := limit\<rparr>))
             else if 2 < WhatToDo \<and> WhatToDo \<le> 5
             then program_preset ps (next_digit SelectedDigit) s
             else Some (ps, WriteCurrentLimit False s))"

definition store_default :: "state \<Rightarrow> state" where
  "store_default s =
     EnableInterrupts (EEPROM_write PresetRecallBase (RecalledPreset s) (DisableInterrupts s))"

text \<open>
  The dispatch loop on \<open>WhatToDo\<close>. The two interactive modes leave 11 in \<open>WhatToDo\<close>, so
  that the next turn of the loop takes the last branch and leaves.
\<close>

function menu :: "8 word \<Rightarrow> presses \<Rightarrow> state \<Rightarrow> state option" where
  "menu WhatToDo ps s =
     (if 0 \<le> WhatToDo \<and> WhatToDo \<le> 2
      then (case select_preset ps (RecalledPreset s) (CurrentLimit s) s of
              None \<Rightarrow> None
            | Some (ps1, s1) \<Rightarrow> menu 11 ps1 s1)
      else if 2 < WhatToDo \<and> WhatToDo \<le> 5
      then (case program_preset ps 0 s of
              None \<Rightarrow> None
            | Some (ps1, s1) \<Rightarrow> menu 11 ps1 s1)
      else if 5 < WhatToDo \<and> WhatToDo \<le> 9
      then Some (StorePreset (CurrentLimit s) (RecalledPreset s) s)
      else if WhatToDo = 10 then Some (store_default s)
      else Some s)"
  by pat_completeness auto
termination
  by (relation "measure (\<lambda>(WhatToDo, ps, s). if unat WhatToDo \<le> 5 then 1 else 0)")
    (auto simp: word_le_nat_alt word_less_nat_alt)

text \<open>
  The part of \<open>loop\<close> that runs when the pushbutton reads \<open>LOW\<close>. The operator is
  described by the readings during \<open>PushbuttonTimeout\<close> (used only with the
  countermeasure flag set), the readings of the measurement that selects the menu
  entry, the later presses, and whether a zero crossing ends the final wait. Before
  that wait the handlers are left out: the menu reads the two flags and the pin for the
  display only.
\<close>

record operator =
  grace :: "nat \<Rightarrow> bool"
  entry :: "nat \<Rightarrow> bool"
  later :: presses
  resumes :: bool

definition menu_entry :: "operator \<Rightarrow> state \<Rightarrow> 8 word \<times> state" where
  "menu_entry op s =
     (if BackEMFcountermeasuresRequired s
      then if \<not> PushbuttonTimeout (grace op) 3
           then (let s1 = set_EnableOutput False s in (TimePushbuttonHeld (entry op), s1))
           else (11, s)
      else (TimePushbuttonHeld (entry op), s))"

definition menu_leave :: "operator \<Rightarrow> state \<Rightarrow> state option" where
  "menu_leave op s =
     (let s1 = (if BackEMFcountermeasuresRequired s
                then if \<not> DummyZeroCrossingIRQenable s then set_EnableOutput True s else s
                else s);
          s2 = s1\<lparr>ZeroCrossingDetected := False, OvercurrentSensed := False\<rparr>
      in if resumes op \<and> ZeroCrossingIRQmode s2 \<noteq> None then Some (ZeroCrossingIRQ s2) else None)"

definition pushbutton_pressed :: "operator \<Rightarrow> state \<Rightarrow> state option" where
  "pushbutton_pressed op s =
     (let (WhatToDo, s1) = menu_entry op s
      in case menu WhatToDo (later op) s1 of
           None \<Rightarrow> None
         | Some s2 \<Rightarrow> menu_leave op s2)"

section \<open>Vocabulary and sample inputs for the sweep and the session\<close>

text \<open>The duty codes a sweep writes for the limits from \<open>i\<close> up to \<open>k - 1\<close>, in order.\<close>

definition sweep_writes :: "nat \<Rightarrow> nat \<Rightarrow> event list" where
  "sweep_writes i k = map (\<lambda>j. EvAnalogWrite (duty_code (word_of_nat j))) [i..<k]"

definition sweep_ready :: "nat \<Rightarrow> state \<Rightarrow> bool" where
  "sweep_ready i s = (OvercurrentIRQattached s \<and> (i \<noteq> 0 \<longrightarrow> \<not> OvercurrentSensed s))"

text \<open>
  A pass in which the comparator trips from limit \<open>n\<close> on and nobody stops the sweep, and
  a pass that is stopped from step \<open>n\<close> on (at the head of the outer loop when \<open>n = 0\<close>).
\<close>

definition trips_from :: "nat \<Rightarrow> sweep_env" where
  "trips_from n = \<lparr>stop_pass = False, stop_step = (\<lambda>i. False), trip = (\<lambda>i. n \<le> i)\<rparr>"

definition stops_from :: "nat \<Rightarrow> sweep_env" where
  "stops_from n = \<lparr>stop_pass = (n = 0), stop_step = (\<lambda>i. n \<le> i), trip = (\<lambda>i. False)\<rparr>"

definition sample_world :: "16 word \<Rightarrow> world" where
  "sample_world u = \<lparr>unassigned = u, passes = []\<rparr>"

section \<open>Vocabulary for the digit editor\<close>

text \<open>
  The decimal digit of \<open>n\<close> at the place of weight \<open>f\<close>, and the number that a list of
  digits stands for when the first has weight \<open>f\<close>.
\<close>

definition place :: "nat \<Rightarrow> nat \<Rightarrow> 8 word" where
  "place n f = word_of_nat (n mod (10 * f) div f)"

fun places_value :: "nat \<Rightarrow> 8 word list \<Rightarrow> nat" where
  "places_value f [] = 0"
| "places_value f (d # ds) = unat d * f + places_value (f div 10) ds"

section \<open>Critical sections in a trace\<close>

text \<open>
  A trace keeps to the critical-section discipline when every EEPROM access in it
  comes directly after \<open>DisableInterrupts\<close>, or after another access of the same section,
  and the accesses of a section are directly followed by \<open>EnableInterrupts\<close>. The trace
  is read from the left with four states: outside a section, directly after
  \<open>DisableInterrupts\<close>, after an access, and broken.
\<close>

datatype guard = Outside | Armed | Accessing | Broken

fun guard_step :: "guard \<Rightarrow> event \<Rightarrow> guard" where
  "guard_step Broken e = Broken"
| "guard_step st EvDisableInterrupts = (if st = Accessing then Broken else Armed)"
| "guard_step st EvEnableInterrupts = Outside"
| "guard_step st (EvEepromRead a) = (if st = Outside then Broken else Accessing)"
| "guard_step st (EvEepromWrite a v) = (if st = Outside then Broken else Accessing)"
| "guard_step st e = (if st = Accessing then Broken else Outside)"


text \<open>The events from \<open>s\<close> to \<open>s'\<close> are whole critical sections and events outside them.\<close>

definition sectioned :: "state \<Rightarrow> state \<Rightarrow> bool" where
  "sectioned s s' = (\<exists>tr. trace s' = trace s @ tr \<and> foldl guard_step Outside tr = Outside)"





section \<open>Sample operators\<close>

text \<open>
  A press that reads \<open>LOW\<close> for the first \<open>n\<close> readings; an operator who does not press
  again; one who presses again at once and holds for \<open>n\<close> readings; and the state in
  normal operation after a good start from the sample EEPROM, with a given
  countermeasure flag.
\<close>

definition held_for :: "nat \<Rightarrow> nat \<Rightarrow> bool" where
  "held_for n i = (i < n)"

definition idle :: operator where
  "idle = \<lparr>grace = held_for 0, entry = held_for 0, later = [], resumes = True\<rparr>"

definition presses_again :: "nat \<Rightarrow> operator" where
  "presses_again n = \<lparr>grace = held_for 31, entry = held_for n, later = [], resumes = True\<rparr>"

definition running :: "bool \<Rightarrow> state" where
  "running flag =
     (power_on sample_eeprom)
       \<lparr>ZeroCrossingTime := 20000, CurrentLimit := 2500, RecalledPreset := 3,
        BackEMFcountermeasuresRequired := flag, EnableOutput := True,
        ZeroCrossingIRQmode := Some CHANGE, OvercurrentIRQattached := True,
        OutputEnablePin := True\<rparr>"

section \<open>Power-up sequence\<close>

text \<open>
  \<open>setup\<close> as a whole: the PWM is started with the duty code of a zero limit, the
  countermeasure flag is read, the time the pushbutton is held at power-up selects the
  mode, and the integrity pass and the qualification follow. What comes from outside is
  the readings of that first measurement, whether the serial prompt is answered, the
  press that leaves the calibration display (if it comes), the passes of a diagnostic
  sweep, the commands of a serial session, what fires during the integrity pass, and
  the line. The result is \<open>None\<close> when
  \<open>setup\<close> stays in one of its waits.
\<close>

record power_up =
  first_hold :: "nat \<Rightarrow> bool"
  answers_prompt :: bool
  calibration_press :: "(nat \<Rightarrow> bool) option"
  diagnostic_sweep :: "sweep_env list"
  commands :: "(command \<times> world) list"
  during_pass :: "nat \<Rightarrow> request list"
  mains :: line

definition toggle_BackEMF :: "state \<Rightarrow> state" where
  "toggle_BackEMF s =
     s\<lparr>BackEMFcountermeasuresRequired := \<not> BackEMFcountermeasuresRequired s\<rparr>"

definition calibration_mode :: "power_up \<Rightarrow> state \<Rightarrow> state option" where
  "calibration_mode pu s =
     (let s1 = DisableInterrupts
                 (WriteCurrentLimit False (s\<lparr>CurrentLimit := word_of_nat MaximumCurrent\<rparr>))
      in case calibration_press pu of
           None \<Rightarrow> None
         | Some p \<Rightarrow>
             let ActionToTake = TimePushbuttonHeld p;
                 r = (if 10 \<le> ActionToTake
                      then let s2 = toggle_BackEMF s1
                           in Some (EEPROM_write BackEMFcountermeasuresRequiredBase
                                      (byte_of_bool (BackEMFcountermeasuresRequired s2)) s2)
                      else if 5 \<le> ActionToTake \<and> ActionToTake \<le> 9
                      then current_sweep ViaLCD (diagnostic_sweep pu) s1
                      else Some s1)
             in map_option (\<lambda>s3. s3\<lparr>DummyZeroCrossingIRQenable := True\<rparr>) r)"

definition startup_mode :: "power_up \<Rightarrow> state \<Rightarrow> state option" where
  "startup_mode pu s =
     (let held = TimePushbuttonHeld (first_hold pu);
          ActionToTake = (if held = 0 \<and> answers_prompt pu then 5 else held)
      in if 10 \<le> ActionToTake then calibration_mode pu s
         else if 5 \<le> ActionToTake \<and> ActionToTake \<le> 9 then serial_session (commands pu) s
         else if 2 \<le> ActionToTake \<and> ActionToTake \<le> 4 then Some (toggle_BackEMF s)
         else Some s)"

definition arduino_setup :: "power_up \<Rightarrow> state \<Rightarrow> (error_code + state) option" where
  "arduino_setup pu s =
     (let s1 = emit (EvAnalogWrite (word_of_nat (MaximumCurrent + 1))) s;
          s2 = setup_read_BackEMF s1
      in map_option (setup_qualify (during_pass pu) (mains pu)) (startup_mode pu s2))"

text \<open>Nobody touches the pushbutton or the serial port, and the line is good.\<close>

definition hands_off :: power_up where
  "hands_off = \<lparr>first_hold = held_for 0, answers_prompt = False, calibration_press = None,
                 diagnostic_sweep = [], commands = [], during_pass = quiet,
                 mains = sample_line 9 20000\<rparr>"

section \<open>Basic facts\<close>

lemma trace_emit: "trace (emit e s) = trace s @ [e]"
  by (simp add: emit_def)

lemma unat_duty_code:
  assumes "unat v \<le> MaximumCurrent"
  shows "unat (duty_code v) = MaximumCurrent + 1 - unat v"
proof -
  have le: "v \<le> (10001 :: 16 word)"
    using assms by (simp add: word_le_nat_alt MaximumCurrent_def)
  have "unat ((10001 :: 16 word) - v) = unat (10001 :: 16 word) - unat v"
    using le by (rule unat_sub)
  then show ?thesis
    by (simp add: duty_code_def MaximumCurrent_def)
qed

lemma trace_WriteCurrentLimit:
  "trace (WriteCurrentLimit sw s) = trace s @ [EvAnalogWrite (duty_code (CurrentLimit s))]"
  by (simp add: WriteCurrentLimit_def Let_def emit_def)

section \<open>The duty code\<close>

text \<open>
  C1. For every \<open>CurrentLimit\<close> value \<open>v\<close> in \<open>[0, MaximumCurrent]\<close>, the one value that
  \<open>WriteCurrentLimit\<close> hands to the PWM driver is \<open>MaximumCurrent + 1 - v\<close>, in both the
  normal and the sweep mode, and a larger limit in that range gives a strictly smaller
  duty code.
\<close>

theorem C1_duty_code_inverted:
  assumes "unat v \<le> MaximumCurrent"
  shows "\<exists>d. trace (WriteCurrentLimit sw (s\<lparr>CurrentLimit := v\<rparr>)) = trace s @ [EvAnalogWrite d]
             \<and> unat d = MaximumCurrent + 1 - unat v
             \<and> (\<forall>w. unat w \<le> MaximumCurrent \<and> unat v < unat w \<longrightarrow> duty_code w < d)"
proof -
  have mono: "duty_code w < duty_code v"
    if "unat w \<le> MaximumCurrent" "unat v < unat w" for w
    using that assms by (simp add: word_less_nat_alt unat_duty_code)
  show ?thesis
    using unat_duty_code [OF assms] mono
    by (intro exI [of _ "duty_code v"]) (simp add: trace_WriteCurrentLimit)
qed

theorem C1_duty_code_inverted_witness:
  "trace (WriteCurrentLimit False (power_on erased\<lparr>CurrentLimit := 2500\<rparr>)) = [EvAnalogWrite 7501]
   \<and> duty_code 2501 < duty_code 2500"
proof -
  have h: "unat (2500 :: 16 word) \<le> MaximumCurrent"
    by (simp add: MaximumCurrent_def)
  from C1_duty_code_inverted [OF h, of False "power_on erased"]
  obtain d where d: "trace (WriteCurrentLimit False (power_on erased\<lparr>CurrentLimit := 2500\<rparr>)) = trace (power_on erased) @ [EvAnalogWrite d]"
    and u: "unat d = MaximumCurrent + 1 - unat (2500 :: 16 word)"
    and m: "\<forall>w. unat w \<le> MaximumCurrent \<and> unat (2500 :: 16 word) < unat w \<longrightarrow> duty_code w < d"
    by blast
  from u have "unat d = unat (7501 :: 16 word)"
    by (simp add: MaximumCurrent_def)
  then have d7501: "d = 7501"
    by (simp only: word_unat_eq_iff)
  have "duty_code 2501 < d"
    using m by (simp add: MaximumCurrent_def)
  then show ?thesis
    using d d7501 by (simp add: duty_code_def MaximumCurrent_def power_on_def)
qed

section \<open>Facts about the startup sequence\<close>

lemma word_of_bytes_split: "word_of_bytes (msb v) (lsb v) = v"
  unfolding word_of_bytes_def msb_def lsb_def
  by (rule bit_word_eqI) (auto simp: bit_simps)

lemma unat_preset_index: "i < 256 \<Longrightarrow> unat (word_of_nat i :: 8 word) = i"
  by (simp add: unat_of_nat)

lemma word_of_bytes_0: "word_of_bytes 0 0 = 0"
  by (simp add: word_of_bytes_def)

lemma msb0: "msb 0 = 0" by (simp add: msb_def)
lemma lsb0: "lsb 0 = 0" by (simp add: lsb_def)

lemma RecallPreset_eq:
  "RecallPreset p s =
     (word_of_bytes (eeprom s (preset_address p)) (eeprom s (preset_address p + 1)),
      s\<lparr>ZeroCrossingIRQmode := Some CHANGE, OutputEnablePin := False, OvercurrentIRQattached := True,
        trace := trace s @ [EvDisableInterrupts, EvEepromRead (preset_address p),
                            EvEepromRead (preset_address p + 1), EvEnableInterrupts]\<rparr>)"
  by (simp add: RecallPreset_def readWord_def EEPROM_read_def DisableInterrupts_def
      EnableInterrupts_def emit_def Let_def)

lemma StorePreset_eq:
  "StorePreset v p s =
     s\<lparr>ZeroCrossingIRQmode := Some CHANGE, OutputEnablePin := False, OvercurrentIRQattached := True,
       eeprom := (eeprom s)(preset_address p := msb v, preset_address p + 1 := lsb v),
       trace := trace s @ [EvDisableInterrupts, EvEepromWrite (preset_address p) (msb v),
                           EvEepromWrite (preset_address p + 1) (lsb v), EvEnableInterrupts]\<rparr>"
  by (simp add: StorePreset_def writeWord_def EEPROM_write_def DisableInterrupts_def
      EnableInterrupts_def emit_def Let_def)

lemma preset_value_eq:
  "i < 256 \<Longrightarrow> preset_value s i = word_of_bytes (eeprom s (2 * i)) (eeprom s (2 * i + 1))"
  by (simp add: preset_value_def RecallPreset_eq preset_address_def BytesPerPreset_def
      CurrentPresetBase_def unat_preset_index mult.commute)

lemma serve_keeps:
  "eeprom (serve r s) = eeprom s" "trace (serve r s) = trace s"
  "ZeroCrossingIRQmode (serve r s) = ZeroCrossingIRQmode s"
  "DummyZeroCrossingIRQenable (serve r s) = DummyZeroCrossingIRQenable s"
  by (simp_all add: serve_def ZeroCrossingIRQ_def OvercurrentIRQ_def split: request.splits)

lemma interrupted_keeps:
  "eeprom (interrupted rs s) = eeprom s" "trace (interrupted rs s) = trace s"
  "ZeroCrossingIRQmode (interrupted rs s) = ZeroCrossingIRQmode s"
  "DummyZeroCrossingIRQenable (interrupted rs s) = DummyZeroCrossingIRQenable s"
  unfolding interrupted_def by (induction rs arbitrary: s) (simp_all add: serve_keeps)

lemma check_preset_eeprom:
  assumes "i < 256"
  shows "eeprom (check_preset fired i s) =
     (if exceeds s i then (eeprom s)(2 * i := 0, 2 * i + 1 := 0) else eeprom s)"
  using assms
  by (simp add: check_preset_def exceeds_def preset_value_def RecallPreset_eq StorePreset_eq
      interrupted_keeps preset_address_def BytesPerPreset_def CurrentPresetBase_def
      unat_preset_index mult.commute msb0 lsb0)

lemma check_preset_trace:
  assumes "i < 256"
  shows "trace (check_preset fired i s) =
     trace s @ (if exceeds s i
                then [EvDisableInterrupts, EvEepromRead (2 * i), EvEepromRead (2 * i + 1),
                      EvEnableInterrupts, EvDisableInterrupts, EvEepromWrite (2 * i) 0,
                      EvEepromWrite (2 * i + 1) 0, EvEnableInterrupts]
                else [EvDisableInterrupts, EvEepromRead (2 * i), EvEepromRead (2 * i + 1),
                      EvEnableInterrupts])"
  using assms
  by (simp add: check_preset_def exceeds_def preset_value_def RecallPreset_eq StorePreset_eq
      interrupted_keeps preset_address_def BytesPerPreset_def CurrentPresetBase_def
      unat_preset_index mult.commute msb0 lsb0)

lemma check_preset_mode:
  "ZeroCrossingIRQmode (check_preset fired i s) = Some CHANGE"
  by (simp add: check_preset_def Let_def RecallPreset_eq StorePreset_eq interrupted_keeps)

lemma check_preset_dummy:
  "DummyZeroCrossingIRQenable (check_preset fired i s) = DummyZeroCrossingIRQenable s"
  by (simp add: check_preset_def Let_def RecallPreset_eq StorePreset_eq interrupted_keeps)




lemma check_presets_loop:
  assumes "\<forall>i\<in>set xs. i < 256"
  shows "\<exists>tr. trace (fold (check_preset fired) xs s) = trace s @ tr
      \<and> eeprom (fold (check_preset fired) xs s) =
          (\<lambda>a. if \<exists>i\<in>set xs. a \<in> slot_cells i \<and> exceeds s i then 0 else eeprom s a)
      \<and> (\<forall>a v. EvEepromWrite a v \<in> set tr \<longleftrightarrow> v = 0 \<and> (\<exists>i\<in>set xs. a \<in> slot_cells i \<and> exceeds s i))
      \<and> (\<forall>a. EvEepromRead a \<in> set tr \<longleftrightarrow> (\<exists>i\<in>set xs. a \<in> slot_cells i))"
  using assms
proof (induction xs rule: rev_induct)
  case Nil
  show ?case by simp
next
  case (snoc x xs)
  let ?m = "fold (check_preset fired) xs s"
  from snoc obtain tr where tr: "trace ?m = trace s @ tr"
    and ee: "eeprom ?m = (\<lambda>a. if \<exists>i\<in>set xs. a \<in> slot_cells i \<and> exceeds s i then 0 else eeprom s a)"
    and wr: "\<forall>a v. EvEepromWrite a v \<in> set tr \<longleftrightarrow> v = 0 \<and> (\<exists>i\<in>set xs. a \<in> slot_cells i \<and> exceeds s i)"
    and rd: "\<forall>a. EvEepromRead a \<in> set tr \<longleftrightarrow> (\<exists>i\<in>set xs. a \<in> slot_cells i)"
    by auto
  have x: "x < 256" using snoc.prems by simp
  have disj: "a \<in> slot_cells i \<Longrightarrow> a \<in> slot_cells j \<Longrightarrow> i = j" for a i j
    by (auto simp: slot_cells_def)
  have ex: "exceeds ?m x = (exceeds s x \<and> \<not> (x \<in> set xs \<and> exceeds s x))"
  proof (cases "x \<in> set xs \<and> exceeds s x")
    case True
    then have "eeprom ?m (2 * x) = 0" "eeprom ?m (2 * x + 1) = 0"
      by (auto simp: ee slot_cells_def)
    then have "preset_value ?m x = 0"
      using x by (simp add: preset_value_eq word_of_bytes_0)
    then show ?thesis using True by (simp add: exceeds_def)
  next
    case False
    have "eeprom ?m (2 * x) = eeprom s (2 * x)" "eeprom ?m (2 * x + 1) = eeprom s (2 * x + 1)"
      using False disj [of _ _ x] by (auto simp: ee slot_cells_def)
    then have "preset_value ?m x = preset_value s x"
      using x by (simp add: preset_value_eq)
    then show ?thesis using False by (auto simp: exceeds_def)
  qed
  show ?case
  proof (cases "exceeds ?m x")
    case True
    then have xs: "exceeds s x" using ex by simp
    let ?new = "[EvDisableInterrupts, EvEepromRead (2 * x), EvEepromRead (2 * x + 1),
                       EvEnableInterrupts, EvDisableInterrupts, EvEepromWrite (2 * x) 0,
                       EvEepromWrite (2 * x + 1) 0, EvEnableInterrupts]"
    have st: "fold (check_preset fired) (xs @ [x]) s = check_preset fired x ?m" by simp
    have 1: "trace (check_preset fired x ?m) = trace s @ (tr @ ?new)"
      using True x by (simp add: check_preset_trace tr)
    have 2: "eeprom (check_preset fired x ?m) = (\<lambda>a. if \<exists>i\<in>set (xs @ [x]). a \<in> slot_cells i \<and> exceeds s i then 0 else eeprom s a)"
      using True x xs by (auto simp: check_preset_eeprom ee slot_cells_def fun_eq_iff)
    have 3: "\<forall>a v. EvEepromWrite a v \<in> set (tr @ ?new) \<longleftrightarrow> v = 0 \<and> (\<exists>i\<in>set (xs @ [x]). a \<in> slot_cells i \<and> exceeds s i)"
      using wr xs by (auto simp: slot_cells_def)
    have 4: "\<forall>a. EvEepromRead a \<in> set (tr @ ?new) \<longleftrightarrow> (\<exists>i\<in>set (xs @ [x]). a \<in> slot_cells i)"
      using rd by (auto simp: slot_cells_def)
    show ?thesis unfolding st using 1 2 3 4 by blast
  next
    case False
    let ?new = "[EvDisableInterrupts, EvEepromRead (2 * x), EvEepromRead (2 * x + 1),
                       EvEnableInterrupts]"
    have st: "fold (check_preset fired) (xs @ [x]) s = check_preset fired x ?m" by simp
    have 1: "trace (check_preset fired x ?m) = trace s @ (tr @ ?new)"
      using False x by (simp add: check_preset_trace tr)
    have 2: "eeprom (check_preset fired x ?m) = (\<lambda>a. if \<exists>i\<in>set (xs @ [x]). a \<in> slot_cells i \<and> exceeds s i then 0 else eeprom s a)"
      using False x ex by (auto simp: check_preset_eeprom ee slot_cells_def fun_eq_iff)
    have 3: "\<forall>a v. EvEepromWrite a v \<in> set (tr @ ?new) \<longleftrightarrow> v = 0 \<and> (\<exists>i\<in>set (xs @ [x]). a \<in> slot_cells i \<and> exceeds s i)"
      using wr False ex by (auto simp: slot_cells_def)
    have 4: "\<forall>a. EvEepromRead a \<in> set (tr @ ?new) \<longleftrightarrow> (\<exists>i\<in>set (xs @ [x]). a \<in> slot_cells i)"
      using rd by (auto simp: slot_cells_def)
    show ?thesis unfolding st using 1 2 3 4 by blast
  qed
qed

lemma check_presets_facts:
  "\<exists>tr. trace (check_presets fired s) = trace s @ tr
      \<and> eeprom (check_presets fired s) =
          (\<lambda>a. if \<exists>i<CurrentPresets. a \<in> slot_cells i \<and> exceeds s i then 0 else eeprom s a)
      \<and> (\<forall>a v. EvEepromWrite a v \<in> set tr \<longleftrightarrow> v = 0 \<and> (\<exists>i<CurrentPresets. a \<in> slot_cells i \<and> exceeds s i))
      \<and> (\<forall>a. EvEepromRead a \<in> set tr \<longleftrightarrow> (\<exists>i<CurrentPresets. a \<in> slot_cells i))"
proof -
  have "\<forall>i\<in>set [0..<CurrentPresets]. i < 256"
    by (simp add: CurrentPresets_def)
  from check_presets_loop [OF this, of fired s] show ?thesis
    by (simp add: check_presets_def Bex_def)
qed

lemma slot_cells_below: "i < CurrentPresets \<Longrightarrow> a \<in> slot_cells i \<Longrightarrow> a < PresetRecallBase"
  by (auto simp: slot_cells_def CurrentPresets_def PresetRecallBase_def BytesPerPreset_def CurrentPresetBase_def)

lemma slot_cells_disjoint: "a \<in> slot_cells i \<Longrightarrow> a \<in> slot_cells j \<Longrightarrow> i = j"
  by (auto simp: slot_cells_def)

lemma preset_address_index:
  "i < 256 \<Longrightarrow> preset_address (word_of_nat i) = 2 * i"
  by (simp add: preset_address_def BytesPerPreset_def CurrentPresetBase_def unat_preset_index)




lemma wait_loop_eq:
  "wait_loop irq i n s =
     (if \<not> ZeroCrossingDetected s \<and> ZeroCrossingIRQmode s \<noteq> None \<and> (\<exists>j<n. irq (i + j))
      then ZeroCrossingIRQ s else s)"
proof (induction n arbitrary: i s)
  case 0
  show ?case by simp
next
  case (Suc n)
  have split: "(\<exists>j<Suc n. irq (i + j)) = (irq i \<or> (\<exists>j<n. irq (Suc i + j)))"
  proof
    assume "\<exists>j<Suc n. irq (i + j)"
    then obtain j where j: "j < Suc n" "irq (i + j)" by blast
    show "irq i \<or> (\<exists>j<n. irq (Suc i + j))"
    proof (cases j)
      case 0 then show ?thesis using j by simp
    next
      case (Suc k) then show ?thesis using j by auto
    qed
  next
    assume "irq i \<or> (\<exists>j<n. irq (Suc i + j))"
    then show "\<exists>j<Suc n. irq (i + j)"
    proof
      assume "irq i" then have "irq (i + 0)" by simp
      then show ?thesis by blast
    next
      assume "\<exists>j<n. irq (Suc i + j)"
      then obtain j where "j < n" "irq (Suc i + j)" by blast
      then have "Suc j < Suc n" "irq (i + Suc j)" by simp_all
      then show ?thesis by blast
    qed
  qed
  show ?case
  proof (cases "ZeroCrossingDetected s")
    case True
    then show ?thesis by simp
  next
    case clear: False
    show ?thesis
    proof (cases "irq i \<and> ZeroCrossingIRQmode s \<noteq> None")
      case True
      have det: "ZeroCrossingDetected (ZeroCrossingIRQ s)"
        by (simp add: ZeroCrossingIRQ_def)
      have "wait_loop irq i (Suc n) s = wait_loop irq (Suc i) n (ZeroCrossingIRQ s)"
        using clear True by simp
      also have "\<dots> = ZeroCrossingIRQ s"
        using det by (simp only: Suc.IH if_False simp_thms)
      finally show ?thesis
        using clear True split by simp
    next
      case False
      have "wait_loop irq i (Suc n) s = wait_loop irq (Suc i) n s"
        using clear False by auto
      also have "\<dots> = (if \<not> ZeroCrossingDetected s \<and> ZeroCrossingIRQmode s \<noteq> None \<and> (\<exists>j<n. irq (Suc i + j))
          then ZeroCrossingIRQ s else s)"
        by (rule Suc.IH)
      finally show ?thesis
        using clear False split by auto
    qed
  qed
qed

lemma Wait_detected:
  "ZeroCrossingDetected (WaitForZeroCrossingOrTimeout irq s) =
     (ZeroCrossingDetected s \<or> (ZeroCrossingIRQmode s \<noteq> None \<and> edge_within irq))"
  by (auto simp: WaitForZeroCrossingOrTimeout_def wait_loop_eq edge_within_def ZeroCrossingIRQ_def)

lemma Wait_mode:
  "ZeroCrossingIRQmode (WaitForZeroCrossingOrTimeout irq s) = ZeroCrossingIRQmode s"
  by (simp add: WaitForZeroCrossingOrTimeout_def wait_loop_eq ZeroCrossingIRQ_def)

lemma Wait_time:
  "ZeroCrossingTime (WaitForZeroCrossingOrTimeout irq s) = ZeroCrossingTime s"
  by (simp add: WaitForZeroCrossingOrTimeout_def wait_loop_eq ZeroCrossingIRQ_def)

lemma rearm_fields:
  "ZeroCrossingDetected (attachZeroCrossing m (clearZeroCrossing (detachZeroCrossing s))) = False"
  "ZeroCrossingIRQmode (attachZeroCrossing m (clearZeroCrossing (detachZeroCrossing s))) = Some m"
  "ZeroCrossingDetected (clearZeroCrossing s) = False"
  "ZeroCrossingIRQmode (clearZeroCrossing s) = ZeroCrossingIRQmode s"
  by (simp_all add: attachZeroCrossing_def clearZeroCrossing_def detachZeroCrossing_def)

lemma measure_falling_fst:
  "fst (measure_falling ln s) = edge_within (edges ln 4)"
  by (simp add: measure_falling_def Let_def Wait_detected Wait_mode rearm_fields)

lemma measure_falling_time:
  "ZeroCrossingTime (snd (measure_falling ln s)) = ucast (StopTime ln - StartTime ln)"
  by (simp add: measure_falling_def Let_def)

lemma fst_qualify:
  "fst (qualify ln s) =
     (if \<not> first_edge ln s then ErrorNoZeroCross
      else if \<not> edge_within (edges ln 2) then ErrorNoAltCycles
      else if \<not> edge_within (edges ln 4) then ErrorNoAltCycles
      else if unat (measured ln) < SinewaveThreshold
      then ErrorSinewaveOnly else ErrorNone)"
proof -
  let ?s1 = "WaitForZeroCrossingOrTimeout (edges ln 0) s"
  let ?s2 = "attachZeroCrossing RISING (clearZeroCrossing (detachZeroCrossing ?s1))"
  let ?s3 = "WaitForZeroCrossingOrTimeout (edges ln 1) ?s2"
  let ?s5 = "WaitForZeroCrossingOrTimeout (edges ln 2) (clearZeroCrossing ?s3)"
  have d1: "ZeroCrossingDetected ?s1 = first_edge ln s"
    by (simp add: Wait_detected first_edge_def)
  have d5: "ZeroCrossingDetected ?s5 = edge_within (edges ln 2)"
    by (simp add: Wait_detected Wait_mode rearm_fields)
  obtain b t where mf: "measure_falling ln ?s5 = (b, t)"
    by (cases "measure_falling ln ?s5")
  have b: "b = edge_within (edges ln 4)"
    using measure_falling_fst [of ln ?s5] mf by simp
  have t: "ZeroCrossingTime t = measured ln"
    using measure_falling_time [of ln ?s5] mf by (simp add: measured_def)
  show ?thesis
    unfolding qualify_def Let_def d1 d5
    by (simp add: mf b t del: One_nat_def)
qed


lemma edge_within_sample: "edge_within (\<lambda>i. P \<and> i = 5) = P"
  by (auto simp: edge_within_def MaxZeroCrossingTime_def MainsFrequency_def
      MaxZeroCrossingTimeIncrement_def)

text \<open>
  C10. At boot the countermeasure flag is true for every nonzero byte stored and false
  only for a stored 0. The test for a flag that is neither true nor false never holds
  for a \<open>bool\<close>, so the write-back does not run: the read is the only EEPROM event and
  the EEPROM content is unchanged, whatever the byte.
\<close>

theorem C10_flag_read_never_writes_back: "BackEMFcountermeasuresRequired (setup_read_BackEMF s) = (eeprom s BackEMFcountermeasuresRequiredBase \<noteq> 0)
  \<and> eeprom (setup_read_BackEMF s) = eeprom s
  \<and> trace (setup_read_BackEMF s) = trace s @ [EvEepromRead BackEMFcountermeasuresRequiredBase]"
  by (simp add: setup_read_BackEMF_def EEPROM_read_def emit_def bool_of_byte_def Let_def)

theorem C10_flag_read_never_writes_back_witness:
  "BackEMFcountermeasuresRequired (setup_read_BackEMF (power_on erased))
   \<and> \<not> BackEMFcountermeasuresRequired (setup_read_BackEMF (power_on sample_eeprom))
   \<and> eeprom (setup_read_BackEMF (power_on erased)) 21 = 255
   \<and> trace (setup_read_BackEMF (power_on erased)) = [EvEepromRead 21]"
  using C10_flag_read_never_writes_back [of "power_on erased"]
    C10_flag_read_never_writes_back [of "power_on sample_eeprom"]
  by (simp add: power_on_def erased_def sample_eeprom_def BackEMFcountermeasuresRequiredBase_def
      PresetRecallBase_def CurrentPresets_def BytesPerPreset_def CurrentPresetBase_def)

lemma integrity_pass_result:
  "\<exists>tr. trace (integrity_pass fired s) = trace s @ tr
     \<and> (\<forall>i<CurrentPresets.
           EvEepromRead (preset_address (word_of_nat i)) \<in> set tr
         \<and> (EvEepromWrite (preset_address (word_of_nat i)) 0 \<in> set tr
              \<longleftrightarrow> MaximumCurrent < unat (preset_value s i))
         \<and> preset_value (integrity_pass fired s) i =
              (if MaximumCurrent < unat (preset_value s i) then 0 else preset_value s i))
     \<and> ((\<exists>v. EvEepromWrite PresetRecallBase v \<in> set tr)
              \<longleftrightarrow> CurrentPresets \<le> unat (eeprom s PresetRecallBase))
     \<and> eeprom (integrity_pass fired s) PresetRecallBase =
          (if CurrentPresets \<le> unat (eeprom s PresetRecallBase) then 0
           else eeprom s PresetRecallBase)"
proof -
  let ?m = "check_presets fired s"
  obtain tr where tr: "trace ?m = trace s @ tr"
    and ee: "eeprom ?m = (\<lambda>a. if \<exists>i<CurrentPresets. a \<in> slot_cells i \<and> exceeds s i then 0 else eeprom s a)"
    and wr: "\<forall>a v. EvEepromWrite a v \<in> set tr \<longleftrightarrow> v = 0 \<and> (\<exists>i<CurrentPresets. a \<in> slot_cells i \<and> exceeds s i)"
    and rd: "\<forall>a. EvEepromRead a \<in> set tr \<longleftrightarrow> (\<exists>i<CurrentPresets. a \<in> slot_cells i)"
    using check_presets_facts [of fired s] by blast
  have base: "eeprom ?m PresetRecallBase = eeprom s PresetRecallBase"
    using slot_cells_below [of _ PresetRecallBase] by (auto simp: ee)
  have nowr: "EvEepromWrite PresetRecallBase v \<notin> set tr" for v
    using slot_cells_below [of _ PresetRecallBase] by (auto simp: wr)
  let ?dflt = "if CurrentPresets \<le> unat (eeprom s PresetRecallBase)
               then [EvEepromRead PresetRecallBase, EvEepromWrite PresetRecallBase 0]
               else [EvEepromRead PresetRecallBase]"
  have t: "trace (integrity_pass fired s) = trace s @ (tr @ ?dflt)"
    by (simp add: integrity_pass_def check_default_def EEPROM_read_def EEPROM_write_def
        emit_def base tr)
  have e: "eeprom (integrity_pass fired s) =
      (if CurrentPresets \<le> unat (eeprom s PresetRecallBase)
       then (eeprom ?m)(PresetRecallBase := 0) else eeprom ?m)"
    by (simp add: integrity_pass_def check_default_def EEPROM_read_def EEPROM_write_def
        emit_def base)
  have slot: "EvEepromRead (preset_address (word_of_nat i)) \<in> set (tr @ ?dflt)
         \<and> (EvEepromWrite (preset_address (word_of_nat i)) 0 \<in> set (tr @ ?dflt)
              \<longleftrightarrow> MaximumCurrent < unat (preset_value s i))
         \<and> preset_value (integrity_pass fired s) i =
              (if MaximumCurrent < unat (preset_value s i) then 0 else preset_value s i)"
    if i: "i < CurrentPresets" for i
  proof -
    have i256: "i < 256" using i by (simp add: CurrentPresets_def)
    have cells: "2 * i \<in> slot_cells i" "2 * i + 1 \<in> slot_cells i"
      by (simp_all add: slot_cells_def)
    have ne: "2 * i \<noteq> PresetRecallBase" "2 * i + 1 \<noteq> PresetRecallBase"
      using slot_cells_below [OF i] cells by fastforce+
    have only: "(\<exists>j<CurrentPresets. a \<in> slot_cells j \<and> exceeds s j) = exceeds s i"
      if "a \<in> slot_cells i" for a
      using that i slot_cells_disjoint [of a i] by blast
    have r: "EvEepromRead (2 * i) \<in> set (tr @ ?dflt)"
      using rd i cells by auto
    have w: "EvEepromWrite (2 * i) 0 \<in> set (tr @ ?dflt) \<longleftrightarrow> exceeds s i"
      using wr only [OF cells(1)] ne by auto
    have v0: "eeprom (integrity_pass fired s) (2 * i) = (if exceeds s i then 0 else eeprom s (2 * i))"
      using ne only [OF cells(1)] by (simp add: e ee)
    have v1: "eeprom (integrity_pass fired s) (2 * i + 1) = (if exceeds s i then 0 else eeprom s (2 * i + 1))"
      using ne only [OF cells(2)] by (simp add: e ee)
    have v: "preset_value (integrity_pass fired s) i = (if exceeds s i then 0 else preset_value s i)"
      using i256 v0 v1 by (simp add: preset_value_eq word_of_bytes_0)
    show ?thesis
      using r w v i256 by (simp add: preset_address_index exceeds_def)
  qed
  have d1: "(\<exists>v. EvEepromWrite PresetRecallBase v \<in> set (tr @ ?dflt))
              \<longleftrightarrow> CurrentPresets \<le> unat (eeprom s PresetRecallBase)"
    using nowr by auto
  have d2: "eeprom (integrity_pass fired s) PresetRecallBase =
          (if CurrentPresets \<le> unat (eeprom s PresetRecallBase) then 0
           else eeprom s PresetRecallBase)"
    by (simp add: e base)
  show ?thesis
    using t slot d1 d2 by blast
qed

text \<open>
  C5. The boot-time integrity pass reads every preset slot; it writes a slot, with 0,
  exactly when the value stored there exceeds \<open>MaximumCurrent\<close>, so that afterwards an
  out-of-range slot holds 0 and an in-range slot holds what it held. It writes the
  persisted default index, with 0, exactly when the stored index is at least
  \<open>CurrentPresets\<close>. The events \<open>tr\<close> are those of the pass. This holds whatever fires
  between the critical sections of the pass.
\<close>

theorem C5_integrity_pass:
  "\<exists>tr. trace (integrity_pass fired s) = trace s @ tr
     \<and> (\<forall>i<CurrentPresets.
           EvEepromRead (preset_address (word_of_nat i)) \<in> set tr
         \<and> (EvEepromWrite (preset_address (word_of_nat i)) 0 \<in> set tr
              \<longleftrightarrow> MaximumCurrent < unat (preset_value s i))
         \<and> preset_value (integrity_pass fired s) i =
              (if MaximumCurrent < unat (preset_value s i) then 0 else preset_value s i))
     \<and> ((\<exists>v. EvEepromWrite PresetRecallBase v \<in> set tr)
              \<longleftrightarrow> CurrentPresets \<le> unat (eeprom s PresetRecallBase))
     \<and> eeprom (integrity_pass fired s) PresetRecallBase =
          (if CurrentPresets \<le> unat (eeprom s PresetRecallBase) then 0
           else eeprom s PresetRecallBase)"
  by (rule integrity_pass_result)

theorem C5_integrity_pass_witness:
  "preset_value (integrity_pass crossings (power_on sample_eeprom)) 3 = 2500
   \<and> preset_value (integrity_pass crossings (power_on sample_eeprom)) 4 = 0
   \<and> eeprom (integrity_pass crossings (power_on sample_eeprom)) PresetRecallBase = 3
   \<and> eeprom (integrity_pass quiet (power_on erased)) PresetRecallBase = 0"
proof -
  have p3: "preset_value (power_on sample_eeprom) 3 = 2500"
    by (simp add: preset_value_eq power_on_def sample_eeprom_def erased_def word_of_bytes_def)
  have p4: "preset_value (power_on sample_eeprom) 4 = 65535"
    by (simp add: preset_value_eq power_on_def sample_eeprom_def erased_def word_of_bytes_def)
  have d: "eeprom (power_on sample_eeprom) PresetRecallBase = 3"
    by (simp add: power_on_def sample_eeprom_def PresetRecallBase_def CurrentPresets_def
        BytesPerPreset_def CurrentPresetBase_def)
  have e: "eeprom (power_on erased) PresetRecallBase = 255"
    by (simp add: power_on_def erased_def)
  have c: "(3::nat) < CurrentPresets" "(4::nat) < CurrentPresets"
    by (simp_all add: CurrentPresets_def)
  from C5_integrity_pass [of crossings "power_on sample_eeprom"] c p3 p4 d
  have a: "preset_value (integrity_pass crossings (power_on sample_eeprom)) 3 = 2500
   \<and> preset_value (integrity_pass crossings (power_on sample_eeprom)) 4 = 0
   \<and> eeprom (integrity_pass crossings (power_on sample_eeprom)) PresetRecallBase = 3"
    by (auto simp: MaximumCurrent_def CurrentPresets_def)
  from C5_integrity_pass [of quiet "power_on erased"] e
  have b: "eeprom (integrity_pass quiet (power_on erased)) PresetRecallBase = 0"
    by (auto simp: CurrentPresets_def)
  show ?thesis using a b by simp
qed


lemma integrity_pass_armed:
  "ZeroCrossingIRQmode (integrity_pass fired s) = Some CHANGE"
proof -
  have "[0..<Suc 9] = [0..<9] @ [9]"
    by (rule upt_Suc_append) simp
  then have l: "[0..<CurrentPresets] = [0..<9] @ [9]"
    by (simp add: CurrentPresets_def del: upt_Suc)
  have "ZeroCrossingIRQmode (check_presets fired s) = Some CHANGE"
    by (simp add: check_presets_def l check_preset_mode del: upt_Suc)
  then show ?thesis
    by (simp add: integrity_pass_def check_default_def EEPROM_read_def EEPROM_write_def emit_def)
qed




section \<open>Facts about the sweep\<close>

lemma limit_word_unat: "i \<le> MaximumCurrent \<Longrightarrow> unat (word_of_nat i :: 16 word) = i"
  by (simp add: MaximumCurrent_def unat_of_nat)

lemma limit_word_zero:
  assumes "i \<le> MaximumCurrent"
  shows "(word_of_nat i = (0 :: 16 word)) = (i = 0)"
proof
  assume "word_of_nat i = (0 :: 16 word)"
  then have "unat (word_of_nat i :: 16 word) = 0" by simp
  then show "i = 0" using limit_word_unat [OF assms] by simp
next
  assume "i = 0"
  then show "word_of_nat i = (0 :: 16 word)" by simp
qed

lemma WriteCurrentLimit_fields:
  "CurrentLimit (WriteCurrentLimit sw s) = CurrentLimit s"
  "OvercurrentIRQattached (WriteCurrentLimit sw s) = OvercurrentIRQattached s"
  "eeprom (WriteCurrentLimit sw s) = eeprom s"
  "EnableOutput (WriteCurrentLimit sw s) = EnableOutput s"
  "RecalledPreset (WriteCurrentLimit sw s) = RecalledPreset s"
  "OvercurrentSensed (WriteCurrentLimit sw s) =
     (OvercurrentSensed s \<and> \<not> (sw \<and> CurrentLimit s = 0))"
  by (simp_all add: WriteCurrentLimit_def Let_def emit_def)

lemma sweep_steps_quiet:
  assumes "sweep_ready i s" "i < MaximumCurrent" "\<not> stop_step env i" "\<not> trip env i"
  shows "\<exists>s'. sweep_steps ch env i s = sweep_steps ch env (Suc i) s' \<and> sweep_ready (Suc i) s'
           \<and> trace s' = trace s @ [EvAnalogWrite (duty_code (word_of_nat i))]"
proof -
  let ?s1 = "WriteCurrentLimit True (s\<lparr>CurrentLimit := word_of_nat i\<rparr>)"
  have le: "i \<le> MaximumCurrent" using assms by simp
  have f: "\<not> OvercurrentSensed ?s1"
    using assms(1) by (auto simp: WriteCurrentLimit_fields sweep_ready_def limit_word_zero [OF le])
  have a: "OvercurrentIRQattached ?s1"
    using assms(1) by (simp add: WriteCurrentLimit_fields sweep_ready_def)
  have c: "unat (CurrentLimit ?s1) = i"
    using limit_word_unat [OF le] by (simp add: WriteCurrentLimit_fields)
  have chk: "sweep_check ch ?s1 = (False, ?s1)"
    using f c assms(2) by (simp add: sweep_check_def)
  have "sweep_steps ch env i s = sweep_steps ch env (Suc i) ?s1"
    using assms le chk by (subst sweep_steps.simps) (simp add: Let_def)
  moreover have "sweep_ready (Suc i) ?s1"
    using f a by (simp add: sweep_ready_def)
  moreover have "trace ?s1 = trace s @ [EvAnalogWrite (duty_code (word_of_nat i))]"
    by (simp add: trace_WriteCurrentLimit)
  ultimately show ?thesis by blast
qed

lemma sweep_writes_snoc:
  "i \<le> k \<Longrightarrow> sweep_writes i (Suc k) = sweep_writes i k @ [EvAnalogWrite (duty_code (word_of_nat k))]"
  by (simp add: sweep_writes_def)

lemma sweep_writes_Cons:
  "i < k \<Longrightarrow> sweep_writes i k = EvAnalogWrite (duty_code (word_of_nat i)) # sweep_writes (Suc i) k"
  by (simp add: sweep_writes_def upt_conv_Cons)

lemma sweep_writes_Nil: "sweep_writes i i = []"
  by (simp add: sweep_writes_def)

lemma sweep_steps_run:
  assumes "sweep_ready i s" "i \<le> k" "k \<le> MaximumCurrent"
    "\<forall>j. i \<le> j \<and> j < k \<longrightarrow> \<not> stop_step env j \<and> \<not> trip env j"
  shows "\<exists>s'. sweep_steps ch env i s = sweep_steps ch env k s' \<and> sweep_ready k s'
           \<and> trace s' = trace s @ sweep_writes i k"
  using assms
proof (induction "k - i" arbitrary: i s)
  case 0
  then have "i = k" by simp
  then show ?case using "0.prems"(1) by (auto simp: sweep_writes_Nil)
next
  case (Suc n)
  then have lt: "i < k" by simp
  have "i < MaximumCurrent" "\<not> stop_step env i" "\<not> trip env i"
    using lt Suc.prems by auto
  from sweep_steps_quiet [OF Suc.prems(1) this, of ch]
  obtain s1 where s1: "sweep_steps ch env i s = sweep_steps ch env (Suc i) s1"
      "sweep_ready (Suc i) s1" "trace s1 = trace s @ [EvAnalogWrite (duty_code (word_of_nat i))]"
    by blast
  have "n = k - Suc i" using Suc.hyps(2) by simp
  from Suc.hyps(1) [OF this s1(2)] lt Suc.prems
  obtain s' where "sweep_steps ch env (Suc i) s1 = sweep_steps ch env k s'" "sweep_ready k s'"
      "trace s' = trace s1 @ sweep_writes (Suc i) k"
    by auto
  then show ?case
    using s1 lt by (auto simp: sweep_writes_Cons)
qed

lemma sweep_steps_stop:
  "stop_step env k \<Longrightarrow> sweep_steps ch env k s = s"
  by (subst sweep_steps.simps) simp

lemma sweep_steps_trip:
  assumes "sweep_ready k s" "k \<le> MaximumCurrent" "\<not> stop_step env k" "trip env k"
  shows "trace (sweep_steps ch env k s) =
           trace s @ [EvAnalogWrite (duty_code (word_of_nat k)), EvSweepSensed ch (word_of_nat k)]
         \<and> CurrentLimit (sweep_steps ch env k s) = word_of_nat k"
proof -
  let ?s1 = "WriteCurrentLimit True (s\<lparr>CurrentLimit := word_of_nat k\<rparr>)"
  have a: "OvercurrentIRQattached ?s1"
    using assms(1) by (simp add: WriteCurrentLimit_fields sweep_ready_def)
  have c: "CurrentLimit ?s1 = word_of_nat k"
    by (simp add: WriteCurrentLimit_fields)
  have t: "trace ?s1 = trace s @ [EvAnalogWrite (duty_code (word_of_nat k))]"
    by (simp add: trace_WriteCurrentLimit)
  have chk: "sweep_check ch (OvercurrentIRQ ?s1) =
      (True, emit (EvSweepSensed ch (word_of_nat k)) (OvercurrentIRQ ?s1))"
    using c by (simp add: sweep_check_def OvercurrentIRQ_def)
  have "sweep_steps ch env k s = emit (EvSweepSensed ch (word_of_nat k)) (OvercurrentIRQ ?s1)"
    using assms a chk by (subst sweep_steps.simps) (simp add: Let_def)
  then show ?thesis
    using t c by (simp add: emit_def OvercurrentIRQ_def)
qed

lemma sweep_steps_last_quiet:
  assumes "sweep_ready MaximumCurrent s" "\<not> stop_step env MaximumCurrent" "\<not> trip env MaximumCurrent"
  shows "trace (sweep_steps ch env MaximumCurrent s) =
           trace s @ [EvAnalogWrite (duty_code (word_of_nat MaximumCurrent)), EvSweepOutOfLimit ch]
         \<and> CurrentLimit (sweep_steps ch env MaximumCurrent s) = word_of_nat MaximumCurrent"
proof -
  let ?s1 = "WriteCurrentLimit True (s\<lparr>CurrentLimit := word_of_nat MaximumCurrent\<rparr>)"
  have f: "\<not> OvercurrentSensed ?s1"
    using assms(1) by (auto simp: WriteCurrentLimit_fields sweep_ready_def MaximumCurrent_def)
  have c: "CurrentLimit ?s1 = word_of_nat MaximumCurrent"
    by (simp add: WriteCurrentLimit_fields)
  have u: "unat (CurrentLimit ?s1) = MaximumCurrent"
    unfolding c by (rule limit_word_unat) simp
  have t: "trace ?s1 = trace s @ [EvAnalogWrite (duty_code (word_of_nat MaximumCurrent))]"
    by (simp add: trace_WriteCurrentLimit)
  have chk: "sweep_check ch ?s1 = (False, emit (EvSweepOutOfLimit ch) ?s1)"
    using f u by (simp add: sweep_check_def)
  have "sweep_steps ch env (Suc MaximumCurrent) (emit (EvSweepOutOfLimit ch) ?s1) = emit (EvSweepOutOfLimit ch) ?s1"
    by (subst sweep_steps.simps) simp
  then have "sweep_steps ch env MaximumCurrent s = emit (EvSweepOutOfLimit ch) ?s1"
    using assms chk by (subst sweep_steps.simps) (simp add: Let_def)
  then show ?thesis
    using t c by (simp add: emit_def)
qed

lemma sweep_ready_EnableInterrupts: "sweep_ready 0 (EnableInterrupts s)"
  by (simp add: sweep_ready_def EnableInterrupts_def emit_def)

lemma trace_EnableInterrupts: "trace (EnableInterrupts s) = trace s @ [EvEnableInterrupts]"
  by (simp add: EnableInterrupts_def emit_def)

text \<open>
  C8. A sweep enables the triggers, runs passes and disables the triggers. In a pass
  that nobody stops before step \<open>k\<close> and in which the overcurrent flag is first seen set
  at step \<open>k\<close>, the duty codes written are those of the limits \<open>0, 1, \<dots>, k\<close> in this
  order, one each, then comes the report, of the value \<open>k\<close>, which is also what
  \<open>CurrentLimit\<close> holds then. When the flag is still clear at \<open>k = MaximumCurrent\<close> the
  pass reports that the limit is out of range. A stop signal at the head of step \<open>k\<close>
  ends the pass before the limit \<open>k\<close> is written, with no report.
\<close>

theorem C8_sweep_reports_first_trip:
  assumes "k \<le> MaximumCurrent" and "\<forall>j<k. \<not> stop_step env j \<and> \<not> trip env j"
    and "\<not> stop_pass env" and "stop_pass env'"
  shows "current_sweep ch [env, env'] s
           = Some (DisableInterrupts (sweep_steps ch env 0 (EnableInterrupts s)))
    \<and> (\<not> stop_step env k \<and> trip env k \<longrightarrow>
          trace (sweep_steps ch env 0 (EnableInterrupts s))
            = trace s @ [EvEnableInterrupts] @ sweep_writes 0 (Suc k) @ [EvSweepSensed ch (word_of_nat k)]
          \<and> CurrentLimit (sweep_steps ch env 0 (EnableInterrupts s)) = word_of_nat k)
    \<and> (\<not> stop_step env k \<and> \<not> trip env k \<and> k = MaximumCurrent \<longrightarrow>
          trace (sweep_steps ch env 0 (EnableInterrupts s))
            = trace s @ [EvEnableInterrupts] @ sweep_writes 0 (Suc k) @ [EvSweepOutOfLimit ch])
    \<and> (stop_step env k \<longrightarrow>
          trace (sweep_steps ch env 0 (EnableInterrupts s))
            = trace s @ [EvEnableInterrupts] @ sweep_writes 0 k)"
proof -
  let ?e = "EnableInterrupts s"
  have q: "\<forall>j. 0 \<le> j \<and> j < k \<longrightarrow> \<not> stop_step env j \<and> \<not> trip env j"
    using assms(2) by simp
  from sweep_steps_run [OF sweep_ready_EnableInterrupts _ assms(1) q, of ch s]
  obtain s' where s': "sweep_steps ch env 0 ?e = sweep_steps ch env k s'" "sweep_ready k s'"
      "trace s' = trace ?e @ sweep_writes 0 k"
    by auto
  have 1: "current_sweep ch [env, env'] s = Some (DisableInterrupts (sweep_steps ch env 0 ?e))"
    using assms(3,4) by (simp add: current_sweep_def)
  have 2: "trace (sweep_steps ch env 0 ?e)
            = trace s @ [EvEnableInterrupts] @ sweep_writes 0 (Suc k) @ [EvSweepSensed ch (word_of_nat k)]
          \<and> CurrentLimit (sweep_steps ch env 0 ?e) = word_of_nat k"
    if "\<not> stop_step env k" "trip env k"
    using sweep_steps_trip [OF s'(2) assms(1) that, of ch] s'(1,3)
    by (simp add: trace_EnableInterrupts sweep_writes_snoc)
  have 3: "trace (sweep_steps ch env 0 ?e)
            = trace s @ [EvEnableInterrupts] @ sweep_writes 0 (Suc k) @ [EvSweepOutOfLimit ch]"
    if "\<not> stop_step env k" "\<not> trip env k" "k = MaximumCurrent"
    using sweep_steps_last_quiet [of s' env ch] s' that
    by (simp add: trace_EnableInterrupts sweep_writes_snoc)
  have 4: "trace (sweep_steps ch env 0 ?e) = trace s @ [EvEnableInterrupts] @ sweep_writes 0 k"
    if "stop_step env k"
    using sweep_steps_stop [OF that, of ch s'] s'
    by (simp add: trace_EnableInterrupts)
  show ?thesis using 1 2 3 4 by blast
qed

theorem C8_sweep_reports_first_trip_witness:
  "trace (sweep_steps ViaSerial (trips_from 4200) 0 (EnableInterrupts (power_on sample_eeprom)))
     = [EvEnableInterrupts] @ sweep_writes 0 4201 @ [EvSweepSensed ViaSerial 4200]
   \<and> trace (sweep_steps ViaLCD (trips_from 10001) 0 (EnableInterrupts (power_on sample_eeprom)))
     = [EvEnableInterrupts] @ sweep_writes 0 10001 @ [EvSweepOutOfLimit ViaLCD]
   \<and> trace (sweep_steps ViaSerial (stops_from 3) 0 (EnableInterrupts (power_on sample_eeprom)))
     = [EvEnableInterrupts, EvAnalogWrite 10001, EvAnalogWrite 10000, EvAnalogWrite 9999]"
proof -
  have a: "trace (sweep_steps ViaSerial (trips_from 4200) 0 (EnableInterrupts (power_on sample_eeprom)))
     = [EvEnableInterrupts] @ sweep_writes 0 4201 @ [EvSweepSensed ViaSerial 4200]"
    using C8_sweep_reports_first_trip [of 4200 "trips_from 4200" "stops_from 0" ViaSerial "power_on sample_eeprom"]
    by (simp add: trips_from_def stops_from_def MaximumCurrent_def power_on_def)
  have b: "trace (sweep_steps ViaLCD (trips_from 10001) 0 (EnableInterrupts (power_on sample_eeprom)))
     = [EvEnableInterrupts] @ sweep_writes 0 10001 @ [EvSweepOutOfLimit ViaLCD]"
    using C8_sweep_reports_first_trip [of 10000 "trips_from 10001" "stops_from 0" ViaLCD "power_on sample_eeprom"]
    by (simp add: trips_from_def stops_from_def MaximumCurrent_def power_on_def)
  have w: "sweep_writes 0 3 = [EvAnalogWrite 10001, EvAnalogWrite 10000, EvAnalogWrite 9999]"
    by (simp add: sweep_writes_def duty_code_def MaximumCurrent_def upt_conv_Cons)
  have c: "trace (sweep_steps ViaSerial (stops_from 3) 0 (EnableInterrupts (power_on sample_eeprom)))
     = [EvEnableInterrupts, EvAnalogWrite 10001, EvAnalogWrite 10000, EvAnalogWrite 9999]"
    using C8_sweep_reports_first_trip [of 3 "stops_from 3" "stops_from 0" ViaSerial "power_on sample_eeprom"]
    by (simp add: stops_from_def MaximumCurrent_def power_on_def w)
  show ?thesis using a b c by blast
qed

section \<open>Facts about the serial session\<close>

lemma memory_index_unat:
  assumes "1 \<le> unat m" "unat m \<le> CurrentPresets"
  shows "unat (memory_index m) = unat m - 1"
proof -
  have "m \<noteq> 0" using assms(1) by auto
  then have u: "unat (m - 1) = unat m - 1" by (rule unat_minus_one)
  have "unat m - 1 < 2 ^ 8" using assms(2) by (simp add: CurrentPresets_def)
  then have "take_bit 8 (unat m - 1) = unat m - 1"
    by (simp only: take_bit_nat_eq_self)
  then show ?thesis
    using u by (simp add: memory_index_def CurrentPresets_def unsigned_ucast_eq)
qed

lemma memory_index_word:
  assumes "1 \<le> unat m" "unat m \<le> CurrentPresets"
  shows "memory_index m = word_of_nat (unat m - 1)"
proof -
  have "unat m - 1 < 256" using assms(2) by (simp add: CurrentPresets_def)
  then have "unat (word_of_nat (unat m - 1) :: 8 word) = unat m - 1"
    by (rule unat_preset_index)
  then show ?thesis
    using memory_index_unat [OF assms] by (simp only: word_unat_eq_iff)
qed

lemma store_condition:
  "(unat m \<le> CurrentPresets \<and> unat v \<le> MaximumCurrent \<and>
      ((100 \<le> CurrentPresets \<and> 0 \<le> unat m \<and> unat m < 100) \<or>
       (CurrentPresets < 100 \<and> 1 \<le> unat m \<and> unat m < 100)))
   = (1 \<le> unat m \<and> unat m \<le> CurrentPresets \<and> unat v \<le> MaximumCurrent)"
  by (auto simp: CurrentPresets_def)

lemma preset_value_StorePreset:
  assumes "i < 256"
  shows "preset_value (StorePreset v (word_of_nat i) s) i = v"
  using assms
  by (simp add: preset_value_eq StorePreset_eq preset_address_index word_of_bytes_split)

lemma store_default_eq:
  "serial_command w (STORE m DEFAULT) s =
     Some (if 1 \<le> unat m \<and> unat m \<le> CurrentPresets \<and> unat (unassigned w) \<le> MaximumCurrent
           then reply True (EEPROM_write PresetRecallBase (word_of_nat (unat m - 1)) s)
           else reply False s)"
proof (cases "1 \<le> unat m \<and> unat m \<le> CurrentPresets")
  case True
  then have idx: "memory_index m = word_of_nat (unat m - 1)"
    by (simp add: memory_index_word)
  have "store_command w m DEFAULT s =
      (if unat (unassigned w) \<le> MaximumCurrent
       then (True, EEPROM_write PresetRecallBase (word_of_nat (unat m - 1)) s) else (False, s))"
    using True unfolding store_command_def Let_def store_condition by (simp add: idx)
  then show ?thesis
    using True by (simp add: serial_command_def)
next
  case False
  then have "store_command w m DEFAULT s = (False, s)"
    unfolding store_command_def Let_def store_condition by auto
  then show ?thesis
    using False by (auto simp: serial_command_def)
qed

text \<open>
  C6. \<open>STORE slot mA\<close>: when the slot is outside \<open>1 .. CurrentPresets\<close> or the value exceeds
  \<open>MaximumCurrent\<close> the reply is \<open>ERROR\<close> and the state is the one before but for the
  reply in the trace; otherwise the value is stored in preset \<open>slot - 1\<close> by
  \<open>StorePreset\<close>, reading that preset gives the value, and the reply is \<open>OK\<close>. The slot
  and the value are the numbers as the sketch holds them in its two \<open>word\<close> variables.
\<close>

theorem C6_store_value:
  "\<exists>s'. serial_command w (STORE m (Milliamps v)) s = Some s'
     \<and> (if 1 \<le> unat m \<and> unat m \<le> CurrentPresets \<and> unat v \<le> MaximumCurrent
         then s' = reply True (StorePreset v (word_of_nat (unat m - 1)) s)
              \<and> preset_value s' (unat m - 1) = v
              \<and> last (trace s') = EvSerial ''OK''
         else s' = s\<lparr>trace := trace s @ [EvSerial ''ERROR'']\<rparr>)"
proof (cases "1 \<le> unat m \<and> unat m \<le> CurrentPresets \<and> unat v \<le> MaximumCurrent")
  case True
  then have idx: "memory_index m = word_of_nat (unat m - 1)"
    by (simp add: memory_index_word)
  have lt: "unat m - 1 < 256" using True by (auto simp: CurrentPresets_def)
  have sc: "store_command w m (Milliamps v) s = (True, StorePreset v (word_of_nat (unat m - 1)) s)"
    using True unfolding store_command_def Let_def store_condition by (simp add: idx)
  have "preset_value (reply True (StorePreset v (word_of_nat (unat m - 1)) s)) (unat m - 1)
      = preset_value (StorePreset v (word_of_nat (unat m - 1)) s) (unat m - 1)"
    using lt by (simp add: preset_value_eq reply_def emit_def)
  then have pv: "preset_value (reply True (StorePreset v (word_of_nat (unat m - 1)) s)) (unat m - 1) = v"
    using lt by (simp add: preset_value_StorePreset)
  show ?thesis
    using True pv by (simp add: serial_command_def sc) (simp add: reply_def emit_def)
next
  case False
  then have sc: "store_command w m (Milliamps v) s = (False, s)"
    unfolding store_command_def Let_def store_condition by simp
  show ?thesis
    using False by (simp add: serial_command_def sc reply_def emit_def)
qed

theorem C6_store_value_witness:
  "serial_command (sample_world 0) (STORE 11 (Milliamps 5000)) (power_on sample_eeprom)
     = Some (power_on sample_eeprom\<lparr>trace := [EvSerial ''ERROR'']\<rparr>)
   \<and> serial_command (sample_world 0) (STORE 4 (Milliamps 10001)) (power_on sample_eeprom)
     = Some (power_on sample_eeprom\<lparr>trace := [EvSerial ''ERROR'']\<rparr>)
   \<and> (\<exists>s'. serial_command (sample_world 0) (STORE 10 (Milliamps 5000)) (power_on sample_eeprom) = Some s'
         \<and> preset_value s' 9 = 5000 \<and> last (trace s') = EvSerial ''OK'')"
proof -
  have t: "trace (power_on sample_eeprom) = []" by (simp add: power_on_def)
  have a: "serial_command (sample_world 0) (STORE 11 (Milliamps 5000)) (power_on sample_eeprom)
     = Some (power_on sample_eeprom\<lparr>trace := [EvSerial ''ERROR'']\<rparr>)"
    using C6_store_value [of "sample_world 0" 11 5000 "power_on sample_eeprom"]
    by (auto simp: CurrentPresets_def MaximumCurrent_def t)
  have b: "serial_command (sample_world 0) (STORE 4 (Milliamps 10001)) (power_on sample_eeprom)
     = Some (power_on sample_eeprom\<lparr>trace := [EvSerial ''ERROR'']\<rparr>)"
    using C6_store_value [of "sample_world 0" 4 10001 "power_on sample_eeprom"]
    by (auto simp: CurrentPresets_def MaximumCurrent_def t)
  have c: "\<exists>s'. serial_command (sample_world 0) (STORE 10 (Milliamps 5000)) (power_on sample_eeprom) = Some s'
         \<and> preset_value s' 9 = 5000 \<and> last (trace s') = EvSerial ''OK''"
    using C6_store_value [of "sample_world 0" 10 5000 "power_on sample_eeprom"]
    by (auto simp: CurrentPresets_def MaximumCurrent_def)
  show ?thesis using a b c by blast
qed

text \<open>
  C7. \<open>STORE slot DEFAULT\<close> on one state, for the in-range slot 3, with two contents of
  the local \<open>ValueToStore\<close>, which this path tests without having assigned it: with
  20000 there the command is answered \<open>ERROR\<close> and nothing is written, with 0 the
  default index becomes 2 and the answer is \<open>OK\<close>.
\<close>

theorem C7_store_default_reads_unassigned_value:
  "serial_command (sample_world 20000) (STORE 3 DEFAULT) (power_on sample_eeprom)
     = Some (power_on sample_eeprom\<lparr>trace := [EvSerial ''ERROR'']\<rparr>)
   \<and> serial_command (sample_world 0) (STORE 3 DEFAULT) (power_on sample_eeprom)
     = Some (power_on sample_eeprom
               \<lparr>eeprom := sample_eeprom(PresetRecallBase := 2),
                trace := [EvEepromWrite PresetRecallBase 2, EvSerial ''OK'']\<rparr>)"
  by (simp add: serial_command_def store_command_def sample_world_def memory_index_def
      CurrentPresets_def MaximumCurrent_def reply_def emit_def EEPROM_write_def power_on_def)

section \<open>Facts about critical sections\<close>


lemma sectioned_trans: "sectioned s t \<Longrightarrow> sectioned t u \<Longrightarrow> sectioned s u"
  by (auto simp: sectioned_def)




lemma sectioned_WriteCurrentLimit: "sectioned s (WriteCurrentLimit sw s)"
  by (simp add: sectioned_def trace_WriteCurrentLimit)
















section \<open>Facts about the digit editor\<close>

lemma count_place_total:
  assumes "factor \<noteq> 0"
  shows "\<exists>t d'. count_place temp factor d = Some (t, d')
           \<and> unat t = unat temp mod unat factor
           \<and> d' = d + word_of_nat (unat temp div unat factor)"
proof (induction "unat temp" arbitrary: temp d rule: less_induct)
  case less
  have f: "0 < unat factor" using assms by (simp add: unat_gt_0)
  show ?case
  proof (cases "factor \<le> temp")
    case True
    then have le: "unat factor \<le> unat temp" by (simp add: word_le_nat_alt)
    have sub: "unat (temp - factor) = unat temp - unat factor"
      using True by (rule unat_sub)
    then have "unat (temp - factor) < unat temp" using f le by simp
    from less [OF this, of "d + 1"]
    obtain t d' where r: "count_place (temp - factor) factor (d + 1) = Some (t, d')"
        "unat t = unat (temp - factor) mod unat factor"
        "d' = d + 1 + word_of_nat (unat (temp - factor) div unat factor)"
      by blast
    have m: "unat t = unat temp mod unat factor"
      using r(2) le by (simp add: sub le_mod_geq)
    have "unat temp div unat factor = Suc ((unat temp - unat factor) div unat factor)"
      using le f by (simp add: le_div_geq)
    then have d: "d' = d + word_of_nat (unat temp div unat factor)"
      using r(3) by (simp add: sub)
    have "count_place temp factor d = count_place (temp - factor) factor (d + 1)"
      using True by (subst count_place.simps) simp
    then show ?thesis using r(1) m d by simp
  next
    case False
    then have lt: "unat temp < unat factor" by (simp add: word_le_nat_alt)
    have "count_place temp factor d = Some (temp, d)"
      using False by (subst count_place.simps) simp
    then show ?thesis using lt by simp
  qed
qed

lemma unat_word16: "n < 65536 \<Longrightarrow> unat (word_of_nat n :: 16 word) = n"
  by (simp add: unat_of_nat)

lemma word16_of_unat: "unat t = n \<Longrightarrow> (t :: 16 word) = word_of_nat n"
  by auto

lemma to_places_decimal:
  fixes c :: "16 word"
  defines "n \<equiv> unat c"
  shows "to_places CurrentDigitCount c (word_of_nat LargestDigitIncrement)
     = Some [word_of_nat (n div 10000), place n 1000, place n 100, place n 10, place n 1]"
proof -
  have f: "(10000 :: 16 word) \<noteq> 0" "(1000 :: 16 word) \<noteq> 0" "(100 :: 16 word) \<noteq> 0"
    "(10 :: 16 word) \<noteq> 0" "(1 :: 16 word) \<noteq> 0"
    by simp_all
  from count_place_total [OF f(1), of c 0]
  obtain t0 where 0: "count_place c 10000 0 = Some (t0, word_of_nat (n div 10000))"
      "unat t0 = n mod 10000"
    by (auto simp: n_def)
  from count_place_total [OF f(2), of t0 0]
  obtain t1 where 1: "count_place t0 1000 0 = Some (t1, place n 1000)" "unat t1 = n mod 1000"
    by (auto simp: 0(2) place_def mod_mod_cancel)
  from count_place_total [OF f(3), of t1 0]
  obtain t2 where 2: "count_place t1 100 0 = Some (t2, place n 100)" "unat t2 = n mod 100"
    by (auto simp: 1(2) place_def mod_mod_cancel)
  from count_place_total [OF f(4), of t2 0]
  obtain t3 where 3: "count_place t2 10 0 = Some (t3, place n 10)" "unat t3 = n mod 10"
    by (auto simp: 2(2) place_def mod_mod_cancel)
  from count_place_total [OF f(5), of t3 0]
  obtain t4 where 4: "count_place t3 1 0 = Some (t4, place n 1)"
    by (auto simp: 3(2) place_def)
  have d: "(10000 :: 16 word) div 10 = 1000" "(1000 :: 16 word) div 10 = 100"
    "(100 :: 16 word) div 10 = 10" "(10 :: 16 word) div 10 = 1"
    by simp_all
  have five: "CurrentDigitCount = Suc (Suc (Suc (Suc (Suc 0))))"
    by (simp add: CurrentDigitCount_def)
  show ?thesis
    unfolding five LargestDigitIncrement_def
    by (simp add: 0 1 2 3 4 d)
qed

lemma unat_ucast_byte: "unat (ucast (d :: 8 word) :: 16 word) = unat d"
proof -
  have "unat d < 2 ^ 16"
    using unsigned_less [of d, where 'a = nat] by simp
  then have "take_bit 16 (unat d) = unat d"
    by (simp only: take_bit_nat_eq_self)
  then show ?thesis
    by (simp add: unsigned_ucast_eq)
qed

lemma add_places_value:
  "unat limit + places_value f ds < 65536 \<Longrightarrow> f < 65536 \<Longrightarrow>
   unat (add_places limit (word_of_nat f) ds) = unat limit + places_value f ds"
proof (induction ds arbitrary: limit f)
  case Nil
  then show ?case by simp
next
  case (Cons d ds)
  have b: "unat limit + unat d * f < 65536" using Cons.prems(1) by simp
  have uf: "unat (word_of_nat f :: 16 word) = f" using Cons.prems(2) by (rule unat_word16)
  have "unat d * f < 65536" using b by simp
  then have m: "unat (ucast d * (word_of_nat f :: 16 word)) = unat d * f"
    using uf by (simp add: unat_mult_lem [THEN iffD1] unat_ucast_byte)
  have a: "unat (limit + ucast d * word_of_nat f) = unat limit + unat d * f"
    using b m by (simp add: unat_add_lem [THEN iffD1])
  have "f div 10 < 65536" using Cons.prems(2) by simp
  then have u10: "unat (word_of_nat (f div 10) :: 16 word) = f div 10"
    by (rule unat_word16)
  have "unat ((word_of_nat f :: 16 word) div 10) = f div 10"
    by (simp add: unat_div uf)
  then have fd: "(word_of_nat f :: 16 word) div 10 = word_of_nat (f div 10)"
    using u10 by (simp only: word_unat_eq_iff)
  have "unat (add_places (limit + ucast d * word_of_nat f) (word_of_nat (f div 10)) ds)
      = unat (limit + ucast d * word_of_nat f) + places_value (f div 10) ds"
    using Cons.prems by (intro Cons.IH) (simp_all add: a less_imp_diff_less)
  then show ?case by (simp add: a fd)
qed

lemma unat_from_places:
  "places_value LargestDigitIncrement ds < 65536 \<Longrightarrow>
   unat (from_places ds) = places_value LargestDigitIncrement ds"
  using add_places_value [of 0 LargestDigitIncrement ds]
  by (simp add: from_places_def LargestDigitIncrement_def)

lemma places_value_update:
  "i < length ds \<Longrightarrow>
   places_value f (ds[i := x]) + unat (ds ! i) * (f div 10 ^ i)
     = places_value f ds + unat x * (f div 10 ^ i)"
proof (induction ds arbitrary: i f)
  case Nil
  then show ?case by simp
next
  case (Cons d ds)
  show ?case
  proof (cases i)
    case 0
    then show ?thesis by simp
  next
    case (Suc j)
    have "f div 10 div 10 ^ j = f div 10 ^ Suc j"
      by (simp add: div_mult2_eq)
    then show ?thesis
      using Cons.IH [of j "f div 10" ] Cons.prems Suc by simp
  qed
qed

lemma unat_place:
  assumes "0 < f"
  shows "unat (place n f) = n mod (10 * f) div f" and "unat (place n f) \<le> 9"
proof -
  have "n mod (10 * f) < 10 * f" using assms by simp
  then have "n mod (10 * f) div f < 10"
    using assms by (simp add: less_mult_imp_div_less mult.commute)
  then show "unat (place n f) = n mod (10 * f) div f"
    by (simp add: place_def unat_of_nat)
  then show "unat (place n f) \<le> 9"
    using \<open>n mod (10 * f) div f < 10\<close> by simp
qed

lemma unat_bump: "unat (bump d) \<le> 9"
proof (cases "9 < d + 1")
  case True
  then show ?thesis by (simp add: bump_def)
next
  case False
  then have "d + 1 \<le> 9" by simp
  then have "unat (d + 1) \<le> 9" by (simp add: word_le_nat_alt)
  then show ?thesis using False by (simp add: bump_def)
qed

lemma unat_bump_small: "unat d \<le> 1 \<Longrightarrow> unat (bump d) \<le> 2"
proof -
  assume a: "unat d \<le> 1"
  then have "unat d + unat (1 :: 8 word) < 2 ^ LENGTH(8)" by simp
  then have u: "unat (d + 1) = unat d + 1"
    by (simp add: unat_add_lem [THEN iffD1])
  then have "\<not> 9 < d + 1" using a by (simp add: word_less_nat_alt)
  then show ?thesis using u a by (simp add: bump_def)
qed

lemma settle_places_eq:
  assumes "unat (from_places (ds[sel := 0])) \<le> MaximumCurrent"
  shows "settle_places sel ds =
     Some (if MaximumCurrent < unat (from_places ds)
           then (from_places (ds[sel := 0]), ds[sel := 0])
           else (from_places ds, ds))"
proof (cases "MaximumCurrent < unat (from_places ds)")
  case True
  have "settle_places sel (ds[sel := 0]) = Some (from_places (ds[sel := 0]), ds[sel := 0])"
    using assms by (subst settle_places.simps) simp
  moreover have "settle_places sel ds = settle_places sel (ds[sel := 0])"
    using True by (subst settle_places.simps) simp
  ultimately show ?thesis using True by simp
next
  case False
  then show ?thesis by (subst settle_places.simps) simp
qed

lemma settle_places_in_range:
  assumes "settle_places sel ds = Some r"
  shows "unat (fst r) \<le> MaximumCurrent \<and> fst r = from_places (snd r)"
  by (rule settle_places.raw_induct
        [where P = "\<lambda>sel ds r. unat (fst r) \<le> MaximumCurrent \<and> fst r = from_places (snd r)",
         OF _ assms])
    (auto split: if_splits)

lemma decimal_places:
  fixes n :: nat
  assumes "n \<le> MaximumCurrent"
  defines "ds \<equiv> [word_of_nat (n div 10000), place n 1000, place n 100, place n 10, place n 1]"
  shows "places_value LargestDigitIncrement ds = n"
    and "\<forall>d\<in>set ds. unat d \<le> 9" and "unat (ds ! 0) \<le> 1" and "length ds = 5"
proof -
  have n: "n \<le> 10000" using assms(1) by (simp add: MaximumCurrent_def)
  then have top: "n div 10000 \<le> 1" by simp
  then have u0: "unat (word_of_nat (n div 10000) :: 8 word) = n div 10000"
    by (simp add: unat_of_nat)
  have m: "n mod 10000 mod 1000 = n mod 1000" "n mod 1000 mod 100 = n mod 100"
    "n mod 100 mod 10 = n mod 10"
    by (simp_all add: mod_mod_cancel)
  have s: "n = n div 10000 * 10000 + n mod 10000"
    "n mod 10000 = n mod 10000 div 1000 * 1000 + n mod 1000"
    "n mod 1000 = n mod 1000 div 100 * 100 + n mod 100"
    "n mod 100 = n mod 100 div 10 * 10 + n mod 10"
    using div_mult_mod_eq [of n 10000] div_mult_mod_eq [of "n mod 10000" 1000]
      div_mult_mod_eq [of "n mod 1000" 100] div_mult_mod_eq [of "n mod 100" 10] m
    by simp_all
  have "places_value LargestDigitIncrement ds =
      n div 10000 * 10000 + n mod 10000 div 1000 * 1000 + n mod 1000 div 100 * 100
        + n mod 100 div 10 * 10 + n mod 10"
    by (simp add: ds_def LargestDigitIncrement_def u0 unat_place)
  then show "places_value LargestDigitIncrement ds = n"
    using s by linarith
  show "\<forall>d\<in>set ds. unat d \<le> 9"
    using top unat_place(2) [of 1000 n] unat_place(2) [of 100 n] unat_place(2) [of 10 n]
      unat_place(2) [of 1 n]
    by (simp add: ds_def u0)
  show "unat (ds ! 0) \<le> 1"
    using top by (simp add: ds_def u0)
  show "length ds = 5" by (simp add: ds_def)
qed

lemma increment_digit_in_range:
  fixes c :: "16 word"
  assumes c: "unat c \<le> MaximumCurrent" and sel: "sel < CurrentDigitCount"
  shows "\<exists>DigitTemp limit ds.
      to_places CurrentDigitCount c (word_of_nat LargestDigitIncrement) = Some DigitTemp
      \<and> from_places DigitTemp = c
      \<and> increment_digit sel DigitTemp = Some (limit, ds)
      \<and> ds = DigitTemp[sel :=
                (if MaximumCurrent < unat (from_places (DigitTemp[sel := bump (DigitTemp ! sel)]))
                 then 0 else bump (DigitTemp ! sel))]
      \<and> limit = from_places ds
      \<and> unat limit \<le> MaximumCurrent"
proof -
  define n where "n = unat c"
  define ds where "ds = [word_of_nat (n div 10000), place n 1000, place n 100, place n 10, place n 1]"
  define F where "F = LargestDigitIncrement div 10 ^ sel"
  define a where "a = unat (ds ! sel)"
  define x where "x = bump (ds ! sel)"
  have n: "n \<le> MaximumCurrent" using c by (simp add: n_def)
  have tp: "to_places CurrentDigitCount c (word_of_nat LargestDigitIncrement) = Some ds"
    unfolding ds_def n_def by (rule to_places_decimal)
  have v: "places_value LargestDigitIncrement ds = n"
    and d9: "\<forall>d\<in>set ds. unat d \<le> 9" and d0: "unat (ds ! 0) \<le> 1" and len: "length ds = 5"
    using decimal_places [OF n] by (simp_all add: ds_def)
  have sl: "sel < length ds" using sel len by (simp add: CurrentDigitCount_def)
  have max: "MaximumCurrent = 10000" by (simp add: MaximumCurrent_def)
  have "unat (from_places ds) = n"
    using unat_from_places [of ds] v n by (simp add: max)
  then have again: "from_places ds = c"
    by (simp add: n_def word_unat_eq_iff)
  have xF: "unat x * F \<le> 20000"
  proof (cases sel)
    case 0
    then have "unat x \<le> 2" using d0 by (simp add: x_def unat_bump_small)
    moreover have "F = 10000" using 0 by (simp add: F_def LargestDigitIncrement_def)
    ultimately show ?thesis by simp
  next
    case (Suc k)
    have "(10 :: nat) ^ 1 \<le> 10 ^ sel" using Suc by (intro power_increasing) simp_all
    then have "LargestDigitIncrement div 10 ^ sel \<le> LargestDigitIncrement div 10 ^ 1"
      by (intro div_le_mono2) simp_all
    then have "F \<le> 1000" by (simp add: F_def LargestDigitIncrement_def)
    moreover have "unat x \<le> 9" by (simp add: x_def unat_bump)
    ultimately have "unat x * F \<le> 9 * 1000" by (intro mult_le_mono)
    then show ?thesis by simp
  qed
  have up: "places_value LargestDigitIncrement (ds[sel := x]) + a * F = n + unat x * F"
    using places_value_update [OF sl, of LargestDigitIncrement x] by (simp add: v a_def F_def)
  have zero: "places_value LargestDigitIncrement (ds[sel := 0]) + a * F = n"
    using places_value_update [OF sl, of LargestDigitIncrement 0] by (simp add: v a_def F_def)
  have cand: "unat (from_places (ds[sel := x])) = places_value LargestDigitIncrement (ds[sel := x])"
    using up xF n by (intro unat_from_places) (simp add: max)
  have zval: "unat (from_places (ds[sel := 0])) = places_value LargestDigitIncrement (ds[sel := 0])"
    using zero n by (intro unat_from_places) (simp add: max)
  have zle: "unat (from_places (ds[sel := 0])) \<le> MaximumCurrent"
    using zval zero n by simp
  have zle': "unat (from_places (ds[sel := x, sel := 0])) \<le> MaximumCurrent"
    using zle by simp
  have inc: "increment_digit sel ds =
     Some (if MaximumCurrent < unat (from_places (ds[sel := x]))
           then (from_places (ds[sel := 0]), ds[sel := 0])
           else (from_places (ds[sel := x]), ds[sel := x]))"
    using settle_places_eq [OF zle'] by (simp add: increment_digit_def x_def)
  show ?thesis
  proof (cases "MaximumCurrent < unat (from_places (ds[sel := x]))")
    case True
    then show ?thesis
      using tp again inc zle by (simp add: x_def)
  next
    case False
    then show ?thesis
      using tp again inc by (simp add: x_def)
  qed
qed

lemma next_digit_less: "next_digit sel < CurrentDigitCount"
  by (simp add: next_digit_def CurrentDigitCount_def)

lemma program_preset_Cons:
  assumes "to_places CurrentDigitCount (CurrentLimit s) (word_of_nat LargestDigitIncrement) = Some DigitTemp"
    and "increment_digit sel DigitTemp = Some (limit, ds)"
  shows "program_preset (p # ps) sel s =
     (if TimePushbuttonHeld p \<le> 2 then program_preset ps sel (s\<lparr>CurrentLimit := limit\<rparr>)
      else if 2 < TimePushbuttonHeld p \<and> TimePushbuttonHeld p \<le> 5
      then program_preset ps (next_digit sel) s
      else Some (ps, WriteCurrentLimit False s))"
  using assms by (simp add: Let_def)

lemma program_preset_facts:
  assumes "unat (CurrentLimit s) \<le> MaximumCurrent" "sel < CurrentDigitCount"
    and "program_preset ps sel s = Some (ps', s')"
  shows "sectioned s s' \<and> unat (CurrentLimit s') \<le> MaximumCurrent"
  using assms
proof (induction ps arbitrary: sel s)
  case Nil
  then show ?case by simp
next
  case (Cons p ps)
  from increment_digit_in_range [OF Cons.prems(1,2)]
  obtain DigitTemp limit ds where
    tp: "to_places CurrentDigitCount (CurrentLimit s) (word_of_nat LargestDigitIncrement) = Some DigitTemp"
    and inc: "increment_digit sel DigitTemp = Some (limit, ds)"
    and le: "unat limit \<le> MaximumCurrent"
    by blast
  from Cons.prems(3) [unfolded program_preset_Cons [OF tp inc]]
  consider (increment) "program_preset ps sel (s\<lparr>CurrentLimit := limit\<rparr>) = Some (ps', s')"
    | (change) "program_preset ps (next_digit sel) s = Some (ps', s')"
    | (leave) "s' = WriteCurrentLimit False s"
    by (auto split: if_splits)
  then show ?case
  proof cases
    case increment
    have "unat (CurrentLimit (s\<lparr>CurrentLimit := limit\<rparr>)) \<le> MaximumCurrent"
      using le by simp
    from Cons.IH [OF this Cons.prems(2) increment]
    have "sectioned (s\<lparr>CurrentLimit := limit\<rparr>) s'" "unat (CurrentLimit s') \<le> MaximumCurrent"
      by simp_all
    moreover have "sectioned s (s\<lparr>CurrentLimit := limit\<rparr>)"
      by (simp add: sectioned_def)
    ultimately show ?thesis by (blast intro: sectioned_trans)
  next
    case change
    from Cons.IH [OF Cons.prems(1) next_digit_less change] show ?thesis .
  next
    case leave
    then show ?thesis
      using Cons.prems(1) sectioned_WriteCurrentLimit [of s False]
      by (simp add: WriteCurrentLimit_fields)
  qed
qed


text \<open>
  C4. One increment step of the digit editor, from a limit within \<open>[0, MaximumCurrent]\<close>
  and for any selected digit. Taking the limit apart ends and gives the digits that put
  together are the limit. The increment changes the selected digit only: 9 becomes 0 and
  any other digit its successor (\<open>bump\<close>), with no carry into another digit; when the
  number put together from that exceeds \<open>MaximumCurrent\<close>, the selected digit is set to
  0 instead, not to what it was and not to the largest digit that fits. The loop that
  does this ends, and the limit it leaves is within \<open>[0, MaximumCurrent]\<close>. So is the
  limit when the editor is left, after whatever presses. From any digits at all, an
  increment step that ends leaves a limit within \<open>[0, MaximumCurrent]\<close>.
\<close>

theorem C4_digit_increment_stays_in_range:
  assumes "unat (CurrentLimit s) \<le> MaximumCurrent" and "SelectedDigit < CurrentDigitCount"
  shows "\<exists>DigitTemp limit ds.
      to_places CurrentDigitCount (CurrentLimit s) (word_of_nat LargestDigitIncrement) = Some DigitTemp
      \<and> from_places DigitTemp = CurrentLimit s
      \<and> increment_digit SelectedDigit DigitTemp = Some (limit, ds)
      \<and> ds = DigitTemp[SelectedDigit :=
                (if MaximumCurrent
                      < unat (from_places (DigitTemp[SelectedDigit := bump (DigitTemp ! SelectedDigit)]))
                 then 0 else bump (DigitTemp ! SelectedDigit))]
      \<and> bump 9 = 0
      \<and> limit = from_places ds
      \<and> unat limit \<le> MaximumCurrent
      \<and> (TimePushbuttonHeld p \<le> 2 \<longrightarrow>
            program_preset (p # ps) SelectedDigit s
              = program_preset ps SelectedDigit (s\<lparr>CurrentLimit := limit\<rparr>))
      \<and> (\<forall>qs qs' s'. program_preset qs SelectedDigit s = Some (qs', s') \<longrightarrow>
            unat (CurrentLimit s') \<le> MaximumCurrent)
      \<and> (\<forall>k digits r. increment_digit k digits = Some r \<longrightarrow>
            unat (fst r) \<le> MaximumCurrent)"
proof -
  from increment_digit_in_range [OF assms]
  obtain DigitTemp limit ds where
    tp: "to_places CurrentDigitCount (CurrentLimit s) (word_of_nat LargestDigitIncrement) = Some DigitTemp"
    and fp: "from_places DigitTemp = CurrentLimit s"
    and inc: "increment_digit SelectedDigit DigitTemp = Some (limit, ds)"
    and ds: "ds = DigitTemp[SelectedDigit :=
                (if MaximumCurrent
                      < unat (from_places (DigitTemp[SelectedDigit := bump (DigitTemp ! SelectedDigit)]))
                 then 0 else bump (DigitTemp ! SelectedDigit))]"
    and lim: "limit = from_places ds" "unat limit \<le> MaximumCurrent"
    by blast
  have b9: "bump 9 = 0" by (simp add: bump_def)
  have step: "program_preset (p # ps) SelectedDigit s
              = program_preset ps SelectedDigit (s\<lparr>CurrentLimit := limit\<rparr>)"
    if "TimePushbuttonHeld p \<le> 2"
    unfolding program_preset_Cons [OF tp inc] using that by simp
  have inv: "unat (CurrentLimit s') \<le> MaximumCurrent"
    if "program_preset qs SelectedDigit s = Some (qs', s')" for qs qs' s'
    using program_preset_facts [OF assms that] by simp
  have any: "unat (fst r) \<le> MaximumCurrent" if "increment_digit k digits = Some r" for k digits r
    using settle_places_in_range [OF that [unfolded increment_digit_def]] by blast
  show ?thesis
    using tp fp inc ds b9 lim step inv any by blast
qed

lemma from_places_example:
  "from_places [2, 0, 0, 0, 0] = 20000" "from_places [0, 0, 0, 0, 0] = 0"
  "from_places [0, 9, 9, 0, 0] = 9900"
  by (simp_all add: from_places_def LargestDigitIncrement_def)

lemma to_places_example:
  "to_places CurrentDigitCount 10000 (word_of_nat LargestDigitIncrement) = Some [1, 0, 0, 0, 0]"
  "to_places CurrentDigitCount 9990 (word_of_nat LargestDigitIncrement) = Some [0, 9, 9, 9, 0]"
  using to_places_decimal [of 10000] to_places_decimal [of 9990] by (simp_all add: place_def)

theorem C4_digit_increment_stays_in_range_witness:
  "to_places CurrentDigitCount 10000 (word_of_nat LargestDigitIncrement) = Some [1, 0, 0, 0, 0]
   \<and> increment_digit 0 [1, 0, 0, 0, 0] = Some (0, [0, 0, 0, 0, 0])
   \<and> to_places CurrentDigitCount 9990 (word_of_nat LargestDigitIncrement) = Some [0, 9, 9, 9, 0]
   \<and> increment_digit 3 [0, 9, 9, 9, 0] = Some (9900, [0, 9, 9, 0, 0])"
proof -
  have h1: "unat (CurrentLimit (running False\<lparr>CurrentLimit := 10000\<rparr>)) \<le> MaximumCurrent"
    by (simp add: MaximumCurrent_def)
  have h2: "unat (CurrentLimit (running False\<lparr>CurrentLimit := 9990\<rparr>)) \<le> MaximumCurrent"
    by (simp add: MaximumCurrent_def)
  have s0: "(0 :: nat) < CurrentDigitCount" and s3: "(3 :: nat) < CurrentDigitCount"
    by (simp_all add: CurrentDigitCount_def)
  have b: "bump 1 = 2" "bump 9 = 0" by (simp_all add: bump_def)
  from C4_digit_increment_stays_in_range [OF h1 s0, of "held_for 3" "[]"]
  obtain D limit ds where
    "to_places CurrentDigitCount (CurrentLimit (running False\<lparr>CurrentLimit := 10000\<rparr>))
       (word_of_nat LargestDigitIncrement) = Some D"
    and i: "increment_digit 0 D = Some (limit, ds)"
    and d: "ds = D[0 := (if MaximumCurrent < unat (from_places (D[0 := bump (D ! 0)]))
                         then 0 else bump (D ! 0))]"
    and l: "limit = from_places ds"
    by (elim exE conjE)
  then have D: "D = [1, 0, 0, 0, 0]"
    by (simp add: to_places_example)
  have "ds = [0, 0, 0, 0, 0]"
    unfolding d D by (simp add: b from_places_example MaximumCurrent_def)
  then have a1: "increment_digit 0 [1, 0, 0, 0, 0] = Some (0, [0, 0, 0, 0, 0])"
    using i l D by (simp add: from_places_example)
  from C4_digit_increment_stays_in_range [OF h2 s3, of "held_for 3" "[]"]
  obtain E limit2 es where
    "to_places CurrentDigitCount (CurrentLimit (running False\<lparr>CurrentLimit := 9990\<rparr>))
       (word_of_nat LargestDigitIncrement) = Some E"
    and i2: "increment_digit 3 E = Some (limit2, es)"
    and d2: "es = E[3 := (if MaximumCurrent < unat (from_places (E[3 := bump (E ! 3)]))
                         then 0 else bump (E ! 3))]"
    and l2: "limit2 = from_places es"
    by (elim exE conjE)
  then have E: "E = [0, 9, 9, 9, 0]"
    by (simp add: to_places_example)
  have "es = [0, 9, 9, 0, 0]"
    unfolding d2 E by (simp add: b from_places_example MaximumCurrent_def eval_nat_numeral)
  then have a2: "increment_digit 3 [0, 9, 9, 9, 0] = Some (9900, [0, 9, 9, 0, 0])"
    using i2 l2 E by (simp add: from_places_example)
  show ?thesis using to_places_example a1 a2 by simp
qed

section \<open>Facts about the pushbutton and the menu\<close>



lemma PushbuttonTimeout_loop_eq:
  "PushbuttonTimeout_loop low v i = (\<forall>j. i \<le> j \<and> j \<le> v * 10 \<longrightarrow> \<not> low j)"
proof (induction low v i rule: PushbuttonTimeout_loop.induct)
  case (1 low v i)
  show ?case
  proof (cases "i \<le> v * 10")
    case False
    then show ?thesis by (subst PushbuttonTimeout_loop.simps) auto
  next
    case le: True
    show ?thesis
    proof (cases "low i")
      case True
      then show ?thesis using le by (subst PushbuttonTimeout_loop.simps) auto
    next
      case False
      have "PushbuttonTimeout_loop low v i = PushbuttonTimeout_loop low v (Suc i)"
        using le False by (subst PushbuttonTimeout_loop.simps) simp
      also have "\<dots> = (\<forall>j. Suc i \<le> j \<and> j \<le> v * 10 \<longrightarrow> \<not> low j)"
        using "1.IH" le False by simp
      also have "\<dots> = (\<forall>j. i \<le> j \<and> j \<le> v * 10 \<longrightarrow> \<not> low j)"
        using False by (metis Suc_leD Suc_leI le_neq_implies_less)
      finally show ?thesis .
    qed
  qed
qed

lemma PushbuttonTimeout_eq: "PushbuttonTimeout low 3 = (\<forall>j\<le>30. \<not> low j)"
proof -
  have "(3 :: nat) * 10 = 30" by simp
  then show ?thesis
    unfolding PushbuttonTimeout_def PushbuttonTimeout_loop_eq by (simp only: le0 simp_thms)
qed

lemma held_3: "TimePushbuttonHeld (held_for 3) = 0"
  by (simp add: TimePushbuttonHeld_def held_for_def)

lemma held_62: "TimePushbuttonHeld (held_for 62) = 6"
  by (simp add: TimePushbuttonHeld_def held_for_def)

lemma menu_11: "menu 11 ps s = Some s"
  by (subst menu.simps) simp

lemma menu_cases:
  "menu w ps s =
     (if w \<le> 2 then (case select_preset ps (RecalledPreset s) (CurrentLimit s) s of
              None \<Rightarrow> None | Some (ps1, s1) \<Rightarrow> Some s1)
      else if w \<le> 5 then (case program_preset ps 0 s of
              None \<Rightarrow> None | Some (ps1, s1) \<Rightarrow> Some s1)
      else if w \<le> 9 then Some (StorePreset (CurrentLimit s) (RecalledPreset s) s)
      else if w = 10 then Some (store_default s)
      else Some s)"
proof -
  have a: "(2 < w \<and> w \<le> 5) = (w \<le> 5)" if "\<not> w \<le> 2"
    using that by (auto simp: word_less_nat_alt word_le_nat_alt)
  have b: "(5 < w \<and> w \<le> 9) = (w \<le> 9)" if "\<not> w \<le> 5"
    using that by (auto simp: word_less_nat_alt word_le_nat_alt)
  show ?thesis
    by (subst menu.simps) (auto simp: menu_11 a b split: option.splits)
qed














lemma running_fields:
  "BackEMFcountermeasuresRequired (running f) = f"
  "DummyZeroCrossingIRQenable (running f) = False"
  "trace (running f) = []"
  "EnableOutput (running f) = True"
  "CurrentLimit (running f) = 2500"
  "RecalledPreset (running f) = 3"
  "ZeroCrossingIRQmode (running f) = Some CHANGE"
  by (simp_all add: running_def power_on_def)

text \<open>
  C3, as the sketch has it. With the countermeasure flag set, handling a press starts
  with \<open>PushbuttonTimeout(3)\<close>, 31 readings of the pushbutton. When none of them is
  \<open>LOW\<close>, nothing is done with \<open>EnableOutput\<close> before the menu, the menu does nothing, and
  on the way back \<open>EnableOutput\<close> is set \<open>HIGH\<close> unless the diagnostic mode is on, where
  it is left as it was; then the sketch waits for a zero crossing, and it is back in
  normal operation when one arrives with the trigger attached, and stays in that wait
  otherwise. When one of the readings is \<open>LOW\<close>, that second press sets \<open>EnableOutput\<close>
  to \<open>LOW\<close>, and then its duration selects the menu entry.
\<close>

theorem C3_output_disabled_on_second_press:
  assumes "BackEMFcountermeasuresRequired s"
  shows "((\<forall>j\<le>30. \<not> grace op j) \<longrightarrow>
            pushbutton_pressed op s = menu_leave op s
          \<and> (resumes op \<and> ZeroCrossingIRQmode s \<noteq> None \<longrightarrow>
                (\<exists>s'. pushbutton_pressed op s = Some s'
                   \<and> trace s' = trace s @ (if DummyZeroCrossingIRQenable s then []
                                         else [EvSetEnableOutput True])
                   \<and> EnableOutput s' = (if DummyZeroCrossingIRQenable s then EnableOutput s else True)
                   \<and> CurrentLimit s' = CurrentLimit s \<and> RecalledPreset s' = RecalledPreset s
                   \<and> eeprom s' = eeprom s))
          \<and> (\<not> (resumes op \<and> ZeroCrossingIRQmode s \<noteq> None) \<longrightarrow>
                pushbutton_pressed op s = None))
       \<and> ((\<exists>j\<le>30. grace op j) \<longrightarrow>
            pushbutton_pressed op s =
              (case menu (TimePushbuttonHeld (entry op)) (later op) (set_EnableOutput False s) of
                 None \<Rightarrow> None
               | Some s2 \<Rightarrow> menu_leave op s2)
          \<and> trace (set_EnableOutput False s) = trace s @ [EvSetEnableOutput False]
          \<and> \<not> EnableOutput (set_EnableOutput False s))"
proof -
  have timeout: "pushbutton_pressed op s = menu_leave op s" if "\<forall>j\<le>30. \<not> grace op j"
    using that assms
    by (simp add: pushbutton_pressed_def menu_entry_def PushbuttonTimeout_eq menu_11)
  have leave: "\<exists>s'. menu_leave op s = Some s'
              \<and> trace s' = trace s @ (if DummyZeroCrossingIRQenable s then []
                                      else [EvSetEnableOutput True])
              \<and> EnableOutput s' = (if DummyZeroCrossingIRQenable s then EnableOutput s else True)
              \<and> CurrentLimit s' = CurrentLimit s \<and> RecalledPreset s' = RecalledPreset s
              \<and> eeprom s' = eeprom s"
    if "resumes op \<and> ZeroCrossingIRQmode s \<noteq> None"
    using that assms
    by (simp add: menu_leave_def Let_def set_EnableOutput_def emit_def ZeroCrossingIRQ_def)
  have stays: "menu_leave op s = None" if "\<not> (resumes op \<and> ZeroCrossingIRQmode s \<noteq> None)"
    using that by (auto simp: menu_leave_def Let_def set_EnableOutput_def emit_def)
  have second: "pushbutton_pressed op s =
              (case menu (TimePushbuttonHeld (entry op)) (later op) (set_EnableOutput False s) of
                 None \<Rightarrow> None
               | Some s2 \<Rightarrow> menu_leave op s2)"
    if "\<exists>j\<le>30. grace op j"
    using that assms
    by (simp add: pushbutton_pressed_def menu_entry_def PushbuttonTimeout_eq Let_def)
  have off: "trace (set_EnableOutput False s) = trace s @ [EvSetEnableOutput False]"
    "\<not> EnableOutput (set_EnableOutput False s)"
    by (simp_all add: set_EnableOutput_def emit_def)
  show ?thesis
    using timeout leave stays second off by (simp del: menu.simps)
qed

theorem C3_output_disabled_on_second_press_witness:
  "map_option trace (pushbutton_pressed idle (running True)) = Some [EvSetEnableOutput True]
   \<and> map_option EnableOutput (pushbutton_pressed idle (running True)) = Some True
   \<and> map_option trace (pushbutton_pressed (presses_again 62) (running True))
       = Some [EvSetEnableOutput False, EvDisableInterrupts, EvEepromWrite 6 9,
               EvEepromWrite 7 196, EvEnableInterrupts, EvSetEnableOutput True]"
proof -
  have f: "BackEMFcountermeasuresRequired (running True)" by (simp add: running_fields)
  have g1: "\<forall>j\<le>30. \<not> grace idle j" by (simp add: idle_def held_for_def)
  have r1: "resumes idle \<and> ZeroCrossingIRQmode (running True) \<noteq> None"
    by (simp add: idle_def running_fields)
  have g2: "\<exists>j\<le>30. grace (presses_again 62) j"
    by (auto simp: presses_again_def held_for_def)
  from C3_output_disabled_on_second_press [OF f, of idle] g1 r1
  obtain s' where "pushbutton_pressed idle (running True) = Some s'"
    and "trace s' = trace (running True) @ (if DummyZeroCrossingIRQenable (running True) then []
                                         else [EvSetEnableOutput True])"
    and "EnableOutput s' = (if DummyZeroCrossingIRQenable (running True)
                            then EnableOutput (running True) else True)"
    by blast
  then have a: "map_option trace (pushbutton_pressed idle (running True)) = Some [EvSetEnableOutput True]
     \<and> map_option EnableOutput (pushbutton_pressed idle (running True)) = Some True"
    by (simp add: running_fields)
  have e: "TimePushbuttonHeld (entry (presses_again 62)) = 6"
    by (simp add: presses_again_def held_62)
  have m: "menu 6 (later (presses_again 62)) (set_EnableOutput False (running True))
      = Some (StorePreset 2500 3 (set_EnableOutput False (running True)))"
    by (simp add: menu_cases set_EnableOutput_def emit_def running_fields)
  from C3_output_disabled_on_second_press [OF f, of "presses_again 62"] g2
  have "pushbutton_pressed (presses_again 62) (running True) =
      (case menu (TimePushbuttonHeld (entry (presses_again 62))) (later (presses_again 62))
              (set_EnableOutput False (running True)) of
         None \<Rightarrow> None
       | Some s2 \<Rightarrow> menu_leave (presses_again 62) s2)"
    by blast
  then have "pushbutton_pressed (presses_again 62) (running True) =
      menu_leave (presses_again 62) (StorePreset 2500 3 (set_EnableOutput False (running True)))"
    by (simp only: e m option.case)
  then have b: "map_option trace (pushbutton_pressed (presses_again 62) (running True))
       = Some [EvSetEnableOutput False, EvDisableInterrupts, EvEepromWrite 6 9,
               EvEepromWrite 7 196, EvEnableInterrupts, EvSetEnableOutput True]"
    by (simp add: menu_leave_def Let_def StorePreset_eq set_EnableOutput_def emit_def
        running_fields presses_again_def ZeroCrossingIRQ_def preset_address_def
        BytesPerPreset_def CurrentPresetBase_def msb_def lsb_def)
  show ?thesis using a b by simp
qed

text \<open>
  C3 as stated fails: with the flag set and the output enabled, a press that is not
  followed by a second one is handled without \<open>EnableOutput\<close> ever being set \<open>LOW\<close>.
\<close>

theorem C3_first_press_does_not_disable:
  "map_option trace (pushbutton_pressed idle (running True)) = Some [EvSetEnableOutput True]
   \<and> map_option EnableOutput (pushbutton_pressed idle (running True)) = Some True"
  by (simp add: pushbutton_pressed_def menu_entry_def PushbuttonTimeout_eq menu_11
      menu_leave_def Let_def set_EnableOutput_def emit_def ZeroCrossingIRQ_def
      idle_def held_for_def running_fields)




section \<open>A start from the sample EEPROM\<close>

lemma Wait_keeps:
  "eeprom (WaitForZeroCrossingOrTimeout irq s) = eeprom s"
  "trace (WaitForZeroCrossingOrTimeout irq s) = trace s"
  "DummyZeroCrossingIRQenable (WaitForZeroCrossingOrTimeout irq s) = DummyZeroCrossingIRQenable s"
  by (simp_all add: WaitForZeroCrossingOrTimeout_def wait_loop_eq ZeroCrossingIRQ_def)

lemma rearm_keeps:
  "eeprom (attachZeroCrossing m s) = eeprom s" "trace (attachZeroCrossing m s) = trace s"
  "DummyZeroCrossingIRQenable (attachZeroCrossing m s) = DummyZeroCrossingIRQenable s"
  "eeprom (detachZeroCrossing s) = eeprom s" "trace (detachZeroCrossing s) = trace s"
  "DummyZeroCrossingIRQenable (detachZeroCrossing s) = DummyZeroCrossingIRQenable s"
  "eeprom (clearZeroCrossing s) = eeprom s" "trace (clearZeroCrossing s) = trace s"
  "DummyZeroCrossingIRQenable (clearZeroCrossing s) = DummyZeroCrossingIRQenable s"
  by (simp_all add: attachZeroCrossing_def detachZeroCrossing_def clearZeroCrossing_def)

lemma measure_falling_keeps:
  "eeprom (snd (measure_falling ln s)) = eeprom s"
  "trace (snd (measure_falling ln s)) = trace s"
  "DummyZeroCrossingIRQenable (snd (measure_falling ln s)) = DummyZeroCrossingIRQenable s"
  by (simp_all add: measure_falling_def Let_def Wait_keeps rearm_keeps)

lemma qualify_keeps:
  "eeprom (snd (qualify ln s)) = eeprom s"
  "trace (snd (qualify ln s)) = trace s"
  "DummyZeroCrossingIRQenable (snd (qualify ln s)) = DummyZeroCrossingIRQenable s"
proof -
  let ?s1 = "WaitForZeroCrossingOrTimeout (edges ln 0) s"
  let ?s2 = "attachZeroCrossing RISING (clearZeroCrossing (detachZeroCrossing ?s1))"
  let ?s3 = "WaitForZeroCrossingOrTimeout (edges ln 1) ?s2"
  let ?s5 = "WaitForZeroCrossingOrTimeout (edges ln 2) (clearZeroCrossing ?s3)"
  obtain b t where mf: "measure_falling ln ?s5 = (b, t)"
    by (cases "measure_falling ln ?s5")
  have s5: "eeprom ?s5 = eeprom s" "trace ?s5 = trace s"
    "DummyZeroCrossingIRQenable ?s5 = DummyZeroCrossingIRQenable s"
    by (simp_all add: Wait_keeps rearm_keeps)
  have s1: "eeprom ?s1 = eeprom s" "trace ?s1 = trace s"
    "DummyZeroCrossingIRQenable ?s1 = DummyZeroCrossingIRQenable s"
    by (simp_all add: Wait_keeps)
  have k: "eeprom t = eeprom s" "trace t = trace s"
    "DummyZeroCrossingIRQenable t = DummyZeroCrossingIRQenable s"
    using measure_falling_keeps [of ln ?s5] mf s5 by simp_all
  have r: "snd (qualify ln s) = ?s1 \<or> snd (qualify ln s) = ?s5 \<or> snd (qualify ln s) = t"
    unfolding qualify_def Let_def by (simp add: mf del: One_nat_def)
  show "eeprom (snd (qualify ln s)) = eeprom s"
    using r s1(1) s5(1) k(1) by metis
  show "trace (snd (qualify ln s)) = trace s"
    using r s1(2) s5(2) k(2) by metis
  show "DummyZeroCrossingIRQenable (snd (qualify ln s)) = DummyZeroCrossingIRQenable s"
    using r s1(3) s5(3) k(3) by metis
qed

lemma integrity_pass_keeps:
  "DummyZeroCrossingIRQenable (integrity_pass fired s) = DummyZeroCrossingIRQenable s"
proof -
  have "DummyZeroCrossingIRQenable (fold (check_preset fired) xs s) = DummyZeroCrossingIRQenable s"
    for xs
    by (induction xs arbitrary: s) (simp_all add: check_preset_dummy)
  then have "DummyZeroCrossingIRQenable (check_presets fired s) = DummyZeroCrossingIRQenable s"
    by (simp add: check_presets_def)
  then show ?thesis
    by (simp add: integrity_pass_def check_default_def EEPROM_read_def EEPROM_write_def emit_def)
qed

text \<open>
  With preset 3 holding 2500 mA and selected as the default, \<open>setup\<close> returns with this
  limit, writes the duty code 7501 and then enables the output.
\<close>

lemma boot_scenario:
  "\<exists>s. arduino_setup hands_off (power_on sample_eeprom) = Some (Inr s) \<and> CurrentLimit s = 2500
       \<and> RecalledPreset s = 3 \<and> EnableOutput s
       \<and> last (trace s) = EvSetEnableOutput True
       \<and> last (butlast (trace s)) = EvAnalogWrite 7501"
proof -
  define s2 where "s2 = setup_read_BackEMF
      (emit (EvAnalogWrite (word_of_nat (MaximumCurrent + 1))) (power_on sample_eeprom))"
  define p where "p = integrity_pass quiet s2"
  have h: "TimePushbuttonHeld (first_hold hands_off) = 0"
    by (simp add: hands_off_def TimePushbuttonHeld_def held_for_def)
  have m: "startup_mode hands_off s2 = Some s2"
    unfolding startup_mode_def Let_def h by (simp add: hands_off_def)
  have ee2: "eeprom s2 = sample_eeprom" and du2: "\<not> DummyZeroCrossingIRQenable s2"
    by (simp_all add: s2_def emit_def power_on_def setup_read_BackEMF_def EEPROM_read_def
        bool_of_byte_def Let_def)
  have st: "arduino_setup hands_off (power_on sample_eeprom)
      = Some (setup_qualify quiet (mains hands_off) s2)"
    unfolding arduino_setup_def Let_def s2_def [symmetric] m by (simp add: hands_off_def)
  have pv3: "preset_value s2 3 = 2500"
    by (simp add: preset_value_eq ee2 sample_eeprom_def erased_def word_of_bytes_def)
  have d: "eeprom s2 PresetRecallBase = 3"
    by (simp add: ee2 sample_eeprom_def PresetRecallBase_def CurrentPresets_def
        BytesPerPreset_def CurrentPresetBase_def)
  have "(3 :: nat) < CurrentPresets" by (simp add: CurrentPresets_def)
  with integrity_pass_result [of quiet s2] pv3 d
  have p3: "preset_value p 3 = 2500" and pd: "eeprom p PresetRecallBase = 3"
    by (auto simp: MaximumCurrent_def CurrentPresets_def p_def)
  obtain e t where q: "qualify (mains hands_off) p = (e, t)"
    by (cases "qualify (mains hands_off) p")
  have fe: "first_edge (mains hands_off) p"
    by (simp add: p_def first_edge_def integrity_pass_armed hands_off_def sample_line_def
        edge_within_sample [of True, simplified])
  have e: "e = ErrorNone"
    using fst_qualify [of "mains hands_off" p] q fe
    by (simp add: hands_off_def sample_line_def edge_within_sample [of True, simplified]
        measured_def SinewaveThreshold_def MainsFrequency_def)
  have t: "eeprom t = eeprom p" "\<not> DummyZeroCrossingIRQenable t"
    using qualify_keeps [of "mains hands_off" p] q du2
    by (simp_all add: p_def integrity_pass_keeps)
  have "preset_value t 3 = 2500"
    using p3 by (simp add: preset_value_eq t)
  then have tv: "word_of_bytes (eeprom t 6) (eeprom t 7) = 2500"
    by (simp add: preset_value_eq)
  have td: "eeprom t PresetRecallBase = 3"
    using pd by (simp add: t)
  have "setup_qualify quiet (mains hands_off) s2 = setup_finish ErrorNone t"
    using q by (simp add: setup_qualify_def e p_def)
  moreover have "\<exists>s. setup_finish ErrorNone t = Inr s \<and> CurrentLimit s = 2500
       \<and> RecalledPreset s = 3 \<and> EnableOutput s
       \<and> last (trace s) = EvSetEnableOutput True
       \<and> last (butlast (trace s)) = EvAnalogWrite 7501"
    using t(2) td tv
    by (simp add: setup_finish_def Let_def EEPROM_read_def DisableInterrupts_def emit_def
        set_EnableOutput_def RecallPreset_eq EnableInterrupts_def WriteCurrentLimit_def preset_address_def
        BytesPerPreset_def CurrentPresetBase_def duty_code_def MaximumCurrent_def butlast_append)
  ultimately show ?thesis
    using st by simp
qed

end
